theory Spec2Isabelle
  imports Main "HOL-Library.Word"
begin

section \<open>Values, buffers and errors\<close>

text \<open>
  The driver \<^verbatim>\<open>lib/luxafor.js\<close> runs on Node.js and uses its \<^verbatim>\<open>Buffer\<close> class.
  A buffer received from the device, or given as a reply signature, is a list of bytes.
  An exception is a value of \<open>error\<close>; a function that can throw returns
  \<open>error + 'a\<close>, with \<open>Inl\<close> for the exception.
\<close>

type_synonym byte = "8 word"
type_synonym buffer = "byte list"

datatype error =
    TypeError
  | RangeError
  | UnrecognizedReply
      \<comment> \<open>\<^verbatim>\<open>new Error('The luxafor light replied with a byte we did not recognize. ...')\<close>\<close>
  | WaitTimedOut

text \<open>
  The values held by the tables of the constants module: numbers and buffers, and
  \<open>Null\<close> for JavaScript's \<^verbatim>\<open>null\<close>.
\<close>

datatype jsval = Null | Num int | Buf buffer

subsection \<open>\<^verbatim>\<open>buf.compare(target, targetStart, targetEnd, sourceStart, sourceEnd)\<close>\<close>

text \<open>
  Node compares the bytes \<open>sourceStart..<sourceEnd\<close> of the buffer with the bytes
  \<open>targetStart..<targetEnd\<close> of the target: \<open>0\<close> when they are equal, \<open>-1\<close> when the
  buffer sorts first, \<open>1\<close> when the target does. A target that is no buffer is a
  TypeError; an end beyond the length of its buffer is a RangeError.
\<close>

fun compare_bytes :: "buffer \<Rightarrow> buffer \<Rightarrow> int" where
  "compare_bytes [] [] = 0"
| "compare_bytes [] (y # ys) = - 1"
| "compare_bytes (x # xs) [] = 1"
| "compare_bytes (x # xs) (y # ys) =
     (if x < y then - 1 else if y < x then 1 else compare_bytes xs ys)"

definition slice :: "buffer \<Rightarrow> nat \<Rightarrow> nat \<Rightarrow> buffer" where
  "slice b start fin = take (fin - start) (drop start b)"

definition Buffer_compare :: "buffer \<Rightarrow> jsval \<Rightarrow> nat \<Rightarrow> nat \<Rightarrow> nat \<Rightarrow> nat \<Rightarrow> error + int" where
  "Buffer_compare source target targetStart targetEnd sourceStart sourceEnd =
     (case target of
        Buf t \<Rightarrow>
          if length t < targetEnd \<or> length source < sourceEnd then Inl RangeError
          else if sourceEnd \<le> sourceStart then
            Inr (if targetEnd \<le> targetStart then 0 else - 1)
          else if targetEnd \<le> targetStart then Inr 1
          else Inr (compare_bytes (slice source sourceStart sourceEnd)
                      (slice t targetStart targetEnd))
      | _ \<Rightarrow> Inl TypeError)"

subsection \<open>\<^verbatim>\<open>buf.readUInt8(offset, noAssert)\<close>\<close>

text \<open>
  The source reads with \<^verbatim>\<open>readUInt8(0,1)\<close>: the second argument is \<^verbatim>\<open>noAssert\<close>, so
  the read is not range checked and an offset beyond the buffer yields
  \<^verbatim>\<open>undefined\<close>, here \<open>None\<close>.
\<close>

definition readUInt8_noAssert :: "buffer \<Rightarrow> nat \<Rightarrow> int option" where
  "readUInt8_noAssert b offset =
     (if offset < length b then Some (uint (b ! offset)) else None)"

subsection \<open>\<^verbatim>\<open>str.toUpperCase()\<close>\<close>

text \<open>
  Strings are ASCII, as the keys of the constants tables are: \<open>a..z\<close> map to \<open>A..Z\<close>,
  every other character is kept.
\<close>

definition upper_char :: "char \<Rightarrow> char" where
  "upper_char c =
     (let n = (of_char c :: nat) in if 97 \<le> n \<and> n \<le> 122 then char_of (n - 32) else c)"

definition toUpperCase :: "string \<Rightarrow> string" where
  "toUpperCase s = map upper_char s"

section \<open>The constants module\<close>

text \<open>
  \<^verbatim>\<open>const API = require('./constants')\<close>. The module is not part of the sources, so
  it is a parameter of every function that reads it. Its members read by name in the
  source are typed fields: the offsets \<^verbatim>\<open>API.BYTE.*\<close> and the opcodes
  \<^verbatim>\<open>API.COMMAND.*\<close>. \<open>tables\<close> lists its object-valued members by name, in the order
  of their keys, as the dynamic read \<^verbatim>\<open>API[name]\<close> sees them; \<^verbatim>\<open>API.REPLY\<close> is the
  entry \<open>''REPLY''\<close>.
\<close>

record byte_offsets =
  BYTE_COMMAND :: nat
  BYTE_LED :: nat
  BYTE_RED :: nat
  BYTE_GREEN :: nat
  BYTE_BLUE :: nat
  BYTE_TIME :: nat
  BYTE_STROBE_PADDING :: nat
  BYTE_STROBE_REPEAT :: nat
  BYTE_WAVE_TYPE :: nat
  BYTE_WAVE_PADDING :: nat
  BYTE_WAVE_REPEAT :: nat
  BYTE_WAVE_SPEED :: nat
  BYTE_PATTERN_ID :: nat
  BYTE_PATTERN_REPEAT :: nat

record command_codes =
  SET_COLOR_SIMPLE :: int
  SET_COLOR_NO_FADE :: int
  SET_COLOR_FADE :: int
  STROBE :: int
  WAVE :: int
  PATTERN :: int
  DEVICE_INFO :: int

type_synonym table = "(string \<times> jsval) list"

record api =
  BYTE :: byte_offsets
  COMMAND :: command_codes
  tables :: "(string \<times> table) list"

section \<open>The reply classifier\<close>

text \<open>
  \<^verbatim>\<open>static getApiValue(haystack, needle)\<close>. \<^verbatim>\<open>Needle in API[Haystack]\<close> throws a
  TypeError when \<^verbatim>\<open>API[Haystack]\<close> is no object. No property that an object
  inherits has an all-uppercase name, so \<^verbatim>\<open>in\<close> is the test for a key of the table.
\<close>

definition getApiValue :: "api \<Rightarrow> string \<Rightarrow> string \<Rightarrow> error + jsval" where
  "getApiValue API haystack needle =
     (let Haystack = toUpperCase haystack;
          Needle = toUpperCase needle
      in case map_of (tables API) Haystack of
           None \<Rightarrow> Inl TypeError
         | Some tbl \<Rightarrow>
             (case map_of tbl Needle of
                Some v \<Rightarrow> Inr v
              | None \<Rightarrow> Inr Null))"

text \<open>\<^verbatim>\<open>static isDeviceInfoBuffer(buffer)\<close>; \<^verbatim>\<open>undefined == n\<close> is false.\<close>

definition isDeviceInfoBuffer :: "api \<Rightarrow> buffer \<Rightarrow> bool" where
  "isDeviceInfoBuffer API buffer =
     (if readUInt8_noAssert buffer 0 = Some (DEVICE_INFO (COMMAND API)) then True
      else False)"

text \<open>
  \<^verbatim>\<open>static findApiReply(buffer)\<close>. The loop over \<^verbatim>\<open>Object.keys(API.REPLY)\<close> is the
  recursion of \<open>findApiReply_loop\<close> over the keys that remain; \<^verbatim>\<open>Object.keys\<close> of a
  missing table throws a TypeError.
\<close>

fun findApiReply_loop :: "api \<Rightarrow> buffer \<Rightarrow> string list \<Rightarrow> error + string option" where
  "findApiReply_loop API buffer [] = Inr None"
| "findApiReply_loop API buffer (key # rest) =
     (case getApiValue API ''reply'' key of
        Inl e \<Rightarrow> Inl e
      | Inr v \<Rightarrow>
          (case Buffer_compare buffer v 0 2 0 2 of
             Inl e \<Rightarrow> Inl e
           | Inr c \<Rightarrow> if c = 0 then Inr (Some key) else findApiReply_loop API buffer rest))"

definition findApiReply :: "api \<Rightarrow> buffer \<Rightarrow> error + string" where
  "findApiReply API buffer =
     (case map_of (tables API) ''REPLY'' of
        None \<Rightarrow> Inl TypeError
      | Some reply \<Rightarrow>
          (case findApiReply_loop API buffer (map fst reply) of
             Inl e \<Rightarrow> Inl e
           | Inr (Some key) \<Rightarrow> Inr key
           | Inr None \<Rightarrow>
               if isDeviceInfoBuffer API buffer then Inr ''DEVICE_INFO''
               else Inl UnrecognizedReply))"

section \<open>The device session\<close>

text \<open>
  The write buffer is allocated by \<^verbatim>\<open>new Buffer(size)\<close>, whose memory Node before
  version 8 does not initialise: a cell is \<open>None\<close> until a byte is written to it.
\<close>

type_synonym cell = "byte option"

text \<open>
  A promise is named by its index in \<open>promises\<close>; the \<^verbatim>\<open>resolve\<close> and \<^verbatim>\<open>reject\<close>
  functions handed to an executor are \<open>resolve p\<close> and \<open>reject p\<close>.
\<close>

datatype promise_state = Pending | Fulfilled buffer | Rejected error

text \<open>
  The two closures the source registers for \<^verbatim>\<open>'data'\<close>, with what they capture: the
  promise to resolve and, in \<^verbatim>\<open>readFromDeviceUntil\<close>, the sought \<^verbatim>\<open>type\<close>.
\<close>

datatype listener = UntilListener nat buffer | DeviceInfoListener nat

fun listener_promise :: "listener \<Rightarrow> nat" where
  "listener_promise (UntilListener p type) = p"
| "listener_promise (DeviceInfoListener p) = p"

text \<open>
  The state of one \<^verbatim>\<open>Luxafor\<close> object together with the runtime it acts on:
  \<^item> \<open>buffer\<close> is \<^verbatim>\<open>this.buffer\<close>, and \<open>writeLog\<close> the offsets written into it since
    it was allocated, in order;
  \<^item> \<open>transferred\<close> holds the frames given to \<^verbatim>\<open>this.writeEndpoint.transfer\<close>, oldest
    first;
  \<^item> \<open>listeners\<close> and \<open>polling\<close> are the \<^verbatim>\<open>'data'\<close> listeners of \<^verbatim>\<open>this.readEndpoint\<close>
    and whether it polls (the endpoint belongs to the \<^verbatim>\<open>usb\<close> package);
  \<^item> \<open>promises\<close>, \<open>timers\<close> (deadline and promise) and \<open>now\<close> (in ms) are the
    promises created so far, the timers armed and the clock.
  The completion callback \<^verbatim>\<open>cb\<close> of a command is the caller's code and is left out.
\<close>

record session =
  buffer :: "cell list"
  writeLog :: "nat list"
  transferred :: "cell list list"
  listeners :: "listener list"
  polling :: bool
  promises :: "promise_state list"
  timers :: "(nat \<times> nat) list"
  now :: nat

definition new_session :: session where
  "new_session =
     \<lparr>buffer = [], writeLog = [], transferred = [], listeners = [], polling = False,
      promises = [], timers = [], now = 0\<rparr>"

text \<open>Statements in sequence: the first exception ends the method.\<close>

fun seq :: "('s \<Rightarrow> error + 's) list \<Rightarrow> 's \<Rightarrow> error + 's" where
  "seq [] s = Inr s"
| "seq (f # fs) s = (case f s of Inl e \<Rightarrow> Inl e | Inr s' \<Rightarrow> seq fs s')"

definition ok :: "('s \<Rightarrow> 's) \<Rightarrow> 's \<Rightarrow> error + 's" where
  "ok f s = Inr (f s)"

subsection \<open>The write buffer\<close>

definition resetWriteBuffer :: "nat \<Rightarrow> session \<Rightarrow> session" where
  "resetWriteBuffer sz s = s\<lparr>buffer := replicate sz None, writeLog := []\<rparr>"

text \<open>
  \<^verbatim>\<open>buf.writeUInt8(value, offset)\<close> checks the value against \<open>0..255\<close> (a TypeError)
  and then the offset against the length (a RangeError) before it stores the byte.
\<close>

definition writeUInt8 :: "cell list \<Rightarrow> int \<Rightarrow> nat \<Rightarrow> error + cell list" where
  "writeUInt8 b val offset =
     (if 255 < val \<or> val < 0 then Inl TypeError
      else if length b < offset + 1 then Inl RangeError
      else Inr (b[offset := Some (word_of_int val)]))"

definition setWriteBufferByte :: "nat \<Rightarrow> int \<Rightarrow> session \<Rightarrow> error + session" where
  "setWriteBufferByte byte data s =
     (case writeUInt8 (buffer s) data byte of
        Inl e \<Rightarrow> Inl e
      | Inr b \<Rightarrow> Inr (s\<lparr>buffer := b, writeLog := writeLog s @ [byte]\<rparr>))"

definition writeToDevice :: "session \<Rightarrow> session" where
  "writeToDevice s = s\<lparr>transferred := transferred s @ [buffer s]\<rparr>"

text \<open>
  \<^verbatim>\<open>init\<close>, after the device is opened and its interface claimed:
  \<^verbatim>\<open>this.buffer = new Buffer([0, 0]); this.writeToDevice(cb)\<close>.
\<close>

definition init :: "session \<Rightarrow> session" where
  "init s = writeToDevice (s\<lparr>buffer := [Some 0, Some 0], writeLog := []\<rparr>)"

subsection \<open>The commands\<close>

definition simpleColor :: "api \<Rightarrow> int \<Rightarrow> session \<Rightarrow> error + session" where
  "simpleColor API char =
     seq [ok (resetWriteBuffer 2),
          setWriteBufferByte (BYTE_COMMAND (BYTE API)) (SET_COLOR_SIMPLE (COMMAND API)),
          setWriteBufferByte 1 char,
          ok writeToDevice]"

definition color :: "api \<Rightarrow> int \<Rightarrow> int \<Rightarrow> int \<Rightarrow> int \<Rightarrow> session \<Rightarrow> error + session" where
  "color API led red green blue =
     seq [ok (resetWriteBuffer 5),
          setWriteBufferByte (BYTE_COMMAND (BYTE API)) (SET_COLOR_NO_FADE (COMMAND API)),
          setWriteBufferByte (BYTE_LED (BYTE API)) led,
          setWriteBufferByte (BYTE_RED (BYTE API)) red,
          setWriteBufferByte (BYTE_GREEN (BYTE API)) green,
          setWriteBufferByte (BYTE_BLUE (BYTE API)) blue,
          ok writeToDevice]"

definition colorFade ::
  "api \<Rightarrow> int \<Rightarrow> int \<Rightarrow> int \<Rightarrow> int \<Rightarrow> int \<Rightarrow> session \<Rightarrow> error + session" where
  "colorFade API led red green blue time =
     seq [ok (resetWriteBuffer 6),
          setWriteBufferByte (BYTE_COMMAND (BYTE API)) (SET_COLOR_FADE (COMMAND API)),
          setWriteBufferByte (BYTE_LED (BYTE API)) led,
          setWriteBufferByte (BYTE_RED (BYTE API)) red,
          setWriteBufferByte (BYTE_GREEN (BYTE API)) green,
          setWriteBufferByte (BYTE_BLUE (BYTE API)) blue,
          setWriteBufferByte (BYTE_TIME (BYTE API)) time,
          ok writeToDevice]"

definition strobe ::
  "api \<Rightarrow> int \<Rightarrow> int \<Rightarrow> int \<Rightarrow> int \<Rightarrow> int \<Rightarrow> int \<Rightarrow> session \<Rightarrow> error + session" where
  "strobe API led red green blue time repeat =
     seq [ok (resetWriteBuffer 8),
          setWriteBufferByte (BYTE_COMMAND (BYTE API)) (STROBE (COMMAND API)),
          setWriteBufferByte (BYTE_LED (BYTE API)) led,
          setWriteBufferByte (BYTE_RED (BYTE API)) red,
          setWriteBufferByte (BYTE_GREEN (BYTE API)) green,
          setWriteBufferByte (BYTE_BLUE (BYTE API)) blue,
          setWriteBufferByte (BYTE_TIME (BYTE API)) time,
          setWriteBufferByte (BYTE_STROBE_PADDING (BYTE API)) 0,
          setWriteBufferByte (BYTE_STROBE_REPEAT (BYTE API)) repeat,
          ok writeToDevice]"

definition wave ::
  "api \<Rightarrow> int \<Rightarrow> int \<Rightarrow> int \<Rightarrow> int \<Rightarrow> int \<Rightarrow> int \<Rightarrow> session \<Rightarrow> error + session" where
  "wave API type red green blue repeat speed =
     seq [ok (resetWriteBuffer 8),
          setWriteBufferByte (BYTE_COMMAND (BYTE API)) (WAVE (COMMAND API)),
          setWriteBufferByte (BYTE_WAVE_TYPE (BYTE API)) type,
          setWriteBufferByte (BYTE_RED (BYTE API)) red,
          setWriteBufferByte (BYTE_GREEN (BYTE API)) green,
          setWriteBufferByte (BYTE_BLUE (BYTE API)) blue,
          setWriteBufferByte (BYTE_WAVE_PADDING (BYTE API)) 0,
          setWriteBufferByte (BYTE_WAVE_REPEAT (BYTE API)) repeat,
          setWriteBufferByte (BYTE_WAVE_SPEED (BYTE API)) speed,
          ok writeToDevice]"

definition pattern :: "api \<Rightarrow> int \<Rightarrow> int \<Rightarrow> session \<Rightarrow> error + session" where
  "pattern API pat repeat =
     seq [ok (resetWriteBuffer 3),
          setWriteBufferByte (BYTE_COMMAND (BYTE API)) (PATTERN (COMMAND API)),
          setWriteBufferByte (BYTE_PATTERN_ID (BYTE API)) pat,
          setWriteBufferByte (BYTE_PATTERN_REPEAT (BYTE API)) repeat,
          ok writeToDevice]"

subsection \<open>Promises\<close>

text \<open>
  \<^verbatim>\<open>new Promise(executor)\<close> creates a pending promise and runs the executor at once.
  A promise settles once: \<^verbatim>\<open>resolve\<close> and \<^verbatim>\<open>reject\<close> on a settled promise do
  nothing.
\<close>

definition resolve :: "nat \<Rightarrow> buffer \<Rightarrow> session \<Rightarrow> session" where
  "resolve p v s =
     (if p < length (promises s) \<and> promises s ! p = Pending
      then s\<lparr>promises := (promises s)[p := Fulfilled v]\<rparr> else s)"

definition reject :: "nat \<Rightarrow> error \<Rightarrow> session \<Rightarrow> session" where
  "reject p e s =
     (if p < length (promises s) \<and> promises s ! p = Pending
      then s\<lparr>promises := (promises s)[p := Rejected e]\<rparr> else s)"

definition new_Promise :: "(nat \<Rightarrow> session \<Rightarrow> session) \<Rightarrow> session \<Rightarrow> nat \<times> session" where
  "new_Promise executor s =
     (let p = length (promises s)
      in (p, executor p (s\<lparr>promises := promises s @ [Pending]\<rparr>)))"

subsection \<open>The read endpoint\<close>

definition removeAllListeners :: "session \<Rightarrow> session" where
  "removeAllListeners s = s\<lparr>listeners := []\<rparr>"

definition on_data :: "listener \<Rightarrow> session \<Rightarrow> session" where
  "on_data l s = s\<lparr>listeners := listeners s @ [l]\<rparr>"

definition startPoll :: "session \<Rightarrow> session" where
  "startPoll s = s\<lparr>polling := True\<rparr>"

definition stopPoll :: "session \<Rightarrow> session" where
  "stopPoll s = s\<lparr>polling := False\<rparr>"

subsection \<open>Waiting for a reply\<close>

text \<open>
  Modelled from the spec: \<^verbatim>\<open>PromiseVsTimeout.commit(timeout, executor)\<close> of the module
  \<^verbatim>\<open>./promise-vs-timeout\<close>, which is not part of the sources. After the spec's timed
  reply arbiter: the wait is a promise that the executor's \<^verbatim>\<open>resolve\<close> settles on the
  success path, raced against a one-shot timer armed for \<open>timeout\<close> ms that settles it
  as the failure \<open>WaitTimedOut\<close> when it fires first.
\<close>

definition commit :: "nat \<Rightarrow> (nat \<Rightarrow> session \<Rightarrow> session) \<Rightarrow> session \<Rightarrow> nat \<times> session" where
  "commit timeout executor s =
     (case new_Promise executor s of
        (p, s') \<Rightarrow> (p, s'\<lparr>timers := timers s' @ [(now s' + timeout, p)]\<rparr>))"

text \<open>The executor of \<^verbatim>\<open>readFromDeviceUntil(type)\<close>, and the method.\<close>

definition readFromDeviceUntil_executor :: "buffer \<Rightarrow> nat \<Rightarrow> session \<Rightarrow> session" where
  "readFromDeviceUntil_executor type p s =
     startPoll (on_data (UntilListener p type) (removeAllListeners s))"

definition readFromDeviceUntil :: "buffer \<Rightarrow> session \<Rightarrow> nat \<times> session" where
  "readFromDeviceUntil type s = commit 1900 (readFromDeviceUntil_executor type) s"

text \<open>The executor of \<^verbatim>\<open>getDeviceInfo()\<close>, and the method.\<close>

definition getDeviceInfo_executor :: "nat \<Rightarrow> session \<Rightarrow> session" where
  "getDeviceInfo_executor p s =
     startPoll (on_data (DeviceInfoListener p) (removeAllListeners s))"

definition getDeviceInfo :: "api \<Rightarrow> session \<Rightarrow> error + nat \<times> session" where
  "getDeviceInfo API s =
     (case seq [ok (resetWriteBuffer 1),
                setWriteBufferByte (BYTE_COMMAND (BYTE API)) (DEVICE_INFO (COMMAND API)),
                ok writeToDevice] s of
        Inl e \<Rightarrow> Inl e
      | Inr s' \<Rightarrow> Inr (new_Promise getDeviceInfo_executor s'))"

subsection \<open>Events\<close>

text \<open>
  The body of each listener, called with the buffer \<open>buf\<close> of a \<^verbatim>\<open>'data'\<close> event
  (\<^verbatim>\<open>buffer\<close> in the source, which names \<^verbatim>\<open>this.buffer\<close> here). In
  \<^verbatim>\<open>if (buffer.compare(type, 0, 2, 0, 2))\<close> the number is the condition: every number
  but \<open>0\<close> is true.
\<close>

fun listener_call :: "api \<Rightarrow> listener \<Rightarrow> buffer \<Rightarrow> session \<Rightarrow> error + session" where
  "listener_call API (UntilListener p type) buf s =
     (case Buffer_compare buf (Buf type) 0 2 0 2 of
        Inl e \<Rightarrow> Inl e
      | Inr c \<Rightarrow> if c \<noteq> 0 then Inr (resolve p buf (stopPoll s)) else Inr s)"
| "listener_call API (DeviceInfoListener p) buf s =
     (if isDeviceInfoBuffer API buf then Inr (resolve p buf (stopPoll s)) else Inr s)"

text \<open>
  The read endpoint emits \<^verbatim>\<open>'data'\<close>: the listeners registered at that moment are
  called in order.
\<close>

definition emit_data :: "api \<Rightarrow> buffer \<Rightarrow> session \<Rightarrow> error + session" where
  "emit_data API buf s = seq (map (\<lambda>l. listener_call API l buf) (listeners s)) s"

text \<open>Time passes: the timers that are due fire, in the order they were armed.\<close>

definition elapse :: "nat \<Rightarrow> session \<Rightarrow> session" where
  "elapse ms s =
     (let t = now s + ms;
          due = filter (\<lambda>(deadline, p). deadline \<le> t) (timers s);
          later = filter (\<lambda>(deadline, p). \<not> deadline \<le> t) (timers s)
      in fold (\<lambda>(deadline, p). reject p WaitTimedOut) due (s\<lparr>timers := later, now := t\<rparr>))"

subsection \<open>Runs of a session\<close>

text \<open>
  What can happen to a session: a method is called, the device sends a buffer, time
  passes. A run ends at the first exception: one thrown by a method reaches its
  caller, one thrown in a listener is not caught.
\<close>

datatype call =
    Init
  | SimpleColor int
  | Color int int int int
  | ColorFade int int int int int
  | Strobe int int int int int int
  | Wave int int int int int int
  | Pattern int int
  | GetDeviceInfo
  | ReadFromDeviceUntil buffer
  | Data buffer
  | Elapse nat

fun perform :: "api \<Rightarrow> call \<Rightarrow> session \<Rightarrow> error + session" where
  "perform API Init s = Inr (init s)"
| "perform API (SimpleColor c) s = simpleColor API c s"
| "perform API (Color l r g b) s = color API l r g b s"
| "perform API (ColorFade l r g b t) s = colorFade API l r g b t s"
| "perform API (Strobe l r g b t n) s = strobe API l r g b t n s"
| "perform API (Wave w r g b n v) s = wave API w r g b n v s"
| "perform API (Pattern i n) s = pattern API i n s"
| "perform API GetDeviceInfo s = map_sum id snd (getDeviceInfo API s)"
| "perform API (ReadFromDeviceUntil type) s = Inr (snd (readFromDeviceUntil type s))"
| "perform API (Data b) s = emit_data API b s"
| "perform API (Elapse ms) s = Inr (elapse ms s)"

definition run :: "api \<Rightarrow> call list \<Rightarrow> session \<Rightarrow> error + session" where
  "run API cs s = seq (map (perform API) cs) s"

text \<open>The calls that arm a wait.\<close>

fun is_arm :: "call \<Rightarrow> bool" where
  "is_arm GetDeviceInfo = True"
| "is_arm (ReadFromDeviceUntil type) = True"
| "is_arm c = False"

section \<open>Reference values\<close>

text \<open>
  Modelled from the spec: the offsets \<^verbatim>\<open>API.BYTE\<close> of the module \<^verbatim>\<open>./constants\<close>, which
  is not part of the sources. They are the offsets of the spec's table of layouts:
  opcode 0; led 1, red 2, green 3, blue 4, time 5; strobe padding 6 and repeat 7; wave
  type 1, padding 5, repeat 6 and speed 7; pattern id 1 and repeat 2.
\<close>

definition BYTE_layout :: byte_offsets where
  "BYTE_layout =
     \<lparr>BYTE_COMMAND = 0, BYTE_LED = 1, BYTE_RED = 2, BYTE_GREEN = 3, BYTE_BLUE = 4,
      BYTE_TIME = 5, BYTE_STROBE_PADDING = 6, BYTE_STROBE_REPEAT = 7,
      BYTE_WAVE_TYPE = 1, BYTE_WAVE_PADDING = 5, BYTE_WAVE_REPEAT = 6,
      BYTE_WAVE_SPEED = 7, BYTE_PATTERN_ID = 1, BYTE_PATTERN_REPEAT = 2\<rparr>"

text \<open>A well-formed field of a command is a byte, and so is every opcode.\<close>

definition is_byte :: "int \<Rightarrow> bool" where
  "is_byte v = (0 \<le> v \<and> v \<le> 255)"

definition wf_commands :: "command_codes \<Rightarrow> bool" where
  "wf_commands c =
     list_all is_byte
       [SET_COLOR_SIMPLE c, SET_COLOR_NO_FADE c, SET_COLOR_FADE c, STROBE c, WAVE c,
        PATTERN c, DEVICE_INFO c]"

text \<open>The cells of a frame that holds the given numbers.\<close>

definition frame :: "int list \<Rightarrow> cell list" where
  "frame vs = map (\<lambda>v. Some (word_of_int v)) vs"

text \<open>
  Modelled from the spec: a constants module for the closed instances below, in place
  of \<^verbatim>\<open>./constants\<close>. The opcodes of \<^verbatim>\<open>SET_COLOR_NO_FADE\<close> and \<^verbatim>\<open>STROBE\<close> are the
  bytes that \<^verbatim>\<open>setColor\<close> and \<^verbatim>\<open>flashColor\<close> of the older driver in the sources
  write at offset 0; the other opcodes and the two reply signatures are sample values.
  No theorem but a closed instance depends on them.
\<close>

definition API_sample :: api where
  "API_sample =
     \<lparr>BYTE = BYTE_layout,
      COMMAND =
        \<lparr>SET_COLOR_SIMPLE = 0, SET_COLOR_NO_FADE = 1, SET_COLOR_FADE = 2, STROBE = 3,
         WAVE = 4, PATTERN = 6, DEVICE_INFO = 128\<rparr>,
      tables =
        [(''REPLY'', [(''ACK'', Buf [1, 0]), (''BUSY'', Buf [1, 1])])]\<rparr>"

text \<open>The frames sent so far, as numbers; \<open>None\<close> is a byte that was never written.\<close>

definition sent_bytes :: "session \<Rightarrow> int option list list" where
  "sent_bytes s = map (map (map_option uint)) (transferred s)"

section \<open>The classifier of the specification\<close>

text \<open>
  The spec's \<^verbatim>\<open>classify\<close>, in its words: compare the first two bytes with each known
  signature in order and return the first match; if none matches, test whether byte 0
  is the \<^verbatim>\<open>DEVICE_INFO\<close> opcode; if neither holds, the reply is unrecognized.
\<close>

datatype reply_kind = Known string | DeviceInfo | Unrecognized

definition signature_matches :: "buffer \<Rightarrow> jsval \<Rightarrow> bool" where
  "signature_matches bytes v =
     (case v of Buf sig \<Rightarrow> take 2 sig = take 2 bytes | _ \<Rightarrow> False)"

fun classify_spec :: "table \<Rightarrow> int \<Rightarrow> buffer \<Rightarrow> reply_kind" where
  "classify_spec [] devinfo bytes =
     (case bytes of
        [] \<Rightarrow> Unrecognized
      | b # _ \<Rightarrow> if uint b = devinfo then DeviceInfo else Unrecognized)"
| "classify_spec ((k, v) # sigs) devinfo bytes =
     (if signature_matches bytes v then Known k else classify_spec sigs devinfo bytes)"

text \<open>
  A reply table as the classifier expects it: the keys are distinct and in upper case,
  and every signature is a buffer of at least two bytes.
\<close>

definition wf_reply :: "table \<Rightarrow> bool" where
  "wf_reply reply =
     (distinct (map fst reply) \<and>
      list_all (\<lambda>(k, v). toUpperCase k = k \<and>
                 (case v of Buf sig \<Rightarrow> 2 \<le> length sig | _ \<Rightarrow> False)) reply)"

text \<open>Two sessions that agree on everything a wait depends on.\<close>

definition same_wait :: "session \<Rightarrow> session \<Rightarrow> bool" where
  "same_wait s s' \<longleftrightarrow>
     listeners s' = listeners s \<and> polling s' = polling s \<and> promises s' = promises s \<and>
     timers s' = timers s \<and> now s' = now s"

section \<open>Facts about the classifier\<close>

lemma toUpperCase_reply: "toUpperCase ''reply'' = ''REPLY''"
  by code_simp

lemma upper_char_idem: "upper_char (upper_char c) = upper_char c"
  by (auto simp: upper_char_def Let_def)

lemma toUpperCase_idem: "toUpperCase (toUpperCase s) = toUpperCase s"
  by (simp add: toUpperCase_def upper_char_idem)

lemma compare_bytes_eq: "compare_bytes xs ys = 0 \<longleftrightarrow> xs = ys"
  by (induction xs ys rule: compare_bytes.induct) auto

lemma Buffer_compare_prefix:
  "2 \<le> length b \<Longrightarrow> 2 \<le> length sig \<Longrightarrow>
   \<exists>c. Buffer_compare b (Buf sig) 0 2 0 2 = Inr c \<and> (c = 0 \<longleftrightarrow> take 2 sig = take 2 b)"
  by (auto simp: Buffer_compare_def slice_def compare_bytes_eq)

lemma getApiValue_reply:
  assumes "map_of (tables API) ''REPLY'' = Some reply" "distinct (map fst reply)"
    "(k, v) \<in> set reply" "toUpperCase k = k"
  shows "getApiValue API ''reply'' k = Inr v"
  using assms by (simp add: getApiValue_def toUpperCase_reply)

lemma findApiReply_loop_find:
  assumes tbl: "map_of (tables API) ''REPLY'' = Some reply" and wf: "wf_reply reply"
    and len: "2 \<le> length b"
  shows "set rest \<subseteq> set reply \<Longrightarrow>
     findApiReply_loop API b (map fst rest) =
       Inr (map_option fst (find (\<lambda>(k, v). signature_matches b v) rest))"
proof (induction rest)
  case Nil
  then show ?case by simp
next
  case (Cons kv rest)
  obtain k v where kv: "kv = (k, v)" by (cases kv)
  from Cons.prems kv have mem: "(k, v) \<in> set reply" by simp
  from wf mem have "toUpperCase k = k \<and> (case v of Buf sig \<Rightarrow> 2 \<le> length sig | _ \<Rightarrow> False)"
    by (fastforce simp: wf_reply_def list_all_iff)
  then obtain sig where v: "v = Buf sig" and sl: "2 \<le> length sig" and up: "toUpperCase k = k"
    by (cases v) auto
  from wf have d: "distinct (map fst reply)" by (simp add: wf_reply_def)
  have g: "getApiValue API ''reply'' k = Inr v"
    by (rule getApiValue_reply [OF tbl d mem up])
  from Buffer_compare_prefix [OF len sl] obtain c where
    c: "Buffer_compare b (Buf sig) 0 2 0 2 = Inr c" "c = 0 \<longleftrightarrow> take 2 sig = take 2 b"
    by blast
  from Cons have IH: "findApiReply_loop API b (map fst rest) =
       Inr (map_option fst (find (\<lambda>(k, v). signature_matches b v) rest))" by simp
  show ?case using g c IH by (simp add: kv v signature_matches_def)
qed

lemma classify_spec_find:
  "classify_spec reply d b =
     (case find (\<lambda>(k, v). signature_matches b v) reply of
        Some (k, v) \<Rightarrow> Known k
      | None \<Rightarrow> (case b of [] \<Rightarrow> Unrecognized
                  | x # _ \<Rightarrow> if uint x = d then DeviceInfo else Unrecognized))"
  by (induction reply d b rule: classify_spec.induct) auto

lemma findApiReply_classify:
  assumes tbl: "map_of (tables API) ''REPLY'' = Some reply" and wf: "wf_reply reply"
    and len: "2 \<le> length b"
  shows "findApiReply API b =
     (case classify_spec reply (DEVICE_INFO (COMMAND API)) b of
        Known k \<Rightarrow> Inr k
      | DeviceInfo \<Rightarrow> Inr ''DEVICE_INFO''
      | Unrecognized \<Rightarrow> Inl UnrecognizedReply)"
proof -
  have l: "findApiReply_loop API b (map fst reply) =
       Inr (map_option fst (find (\<lambda>(k, v). signature_matches b v) reply))"
    by (rule findApiReply_loop_find [OF tbl wf len]) simp
  from len obtain x xs where b: "b = x # xs" by (cases b) auto
  have dev: "isDeviceInfoBuffer API b \<longleftrightarrow> uint x = DEVICE_INFO (COMMAND API)"
    by (simp add: isDeviceInfoBuffer_def readUInt8_noAssert_def b)
  have cls: "classify_spec reply (DEVICE_INFO (COMMAND API)) b =
     (case find (\<lambda>(k, v). signature_matches b v) reply of
        Some (k, v) \<Rightarrow> Known k
      | None \<Rightarrow> if uint x = DEVICE_INFO (COMMAND API) then DeviceInfo else Unrecognized)"
    by (simp add: classify_spec_find b split: option.splits)
  show ?thesis
    by (simp add: findApiReply_def tbl l cls dev split: option.splits prod.splits)
qed

lemma classify_spec_prefix:
  "2 \<le> length b \<Longrightarrow> 2 \<le> length b' \<Longrightarrow> take 2 b' = take 2 b \<Longrightarrow>
   classify_spec reply d b' = classify_spec reply d b"
proof (induction reply)
  case Nil
  then obtain x y r x' y' r' where "b = x # y # r" "b' = x' # y' # r'"
    by (metis Suc_le_length_iff numeral_2_eq_2)
  with Nil show ?case by simp
next
  case (Cons kv reply)
  obtain k v where kv: "kv = (k, v)" by (cases kv)
  have m: "signature_matches b' v = signature_matches b v"
    by (cases v) (simp_all add: signature_matches_def Cons.prems(3))
  from Cons show ?case by (simp add: kv m)
qed

lemma classify_spec_Known:
  "classify_spec reply d b = Known k \<Longrightarrow> k \<in> fst ` set reply"
  by (induction reply d b rule: classify_spec.induct) (auto split: list.splits if_splits)

lemma classify_spec_Unrecognized:
  "b \<noteq> [] \<Longrightarrow> classify_spec reply d b = Unrecognized \<longleftrightarrow>
     (\<forall>(k, v) \<in> set reply. \<not> signature_matches b v) \<and> uint (hd b) \<noteq> d"
  by (induction reply d b rule: classify_spec.induct) (auto split: list.splits if_splits)

lemma sample_reply: "map_of (tables API_sample) ''REPLY'' = Some [(''ACK'', Buf [1, 0]), (''BUSY'', Buf [1, 1])]"
  by (simp add: API_sample_def)

lemma wf_sample_reply: "wf_reply [(''ACK'', Buf [1, 0]), (''BUSY'', Buf [1, 1])]"
  by (simp add: wf_reply_def toUpperCase_def upper_char_def)

lemma sample_DEVICE_INFO: "DEVICE_INFO (COMMAND API_sample) = 128"
  by (simp add: API_sample_def)

section \<open>Claims about the classifier\<close>

text \<open>
  Claim C10. For a table name that the constants object has, \<open>getApiValue\<close> looks the
  needle up without regard to case: both arguments are put in upper case, the entry
  of the table is returned when the needle in upper case is one of its keys, and
  \<open>Null\<close> when it is not; in neither case is an exception thrown.
\<close>

theorem getApiValue_case_insensitive_lookup:
  assumes tbl: "map_of (tables API) (toUpperCase haystack) = Some tbl"
    and keys: "distinct (map fst tbl)"
  shows "(\<forall>v. (toUpperCase needle, v) \<in> set tbl \<longrightarrow> getApiValue API haystack needle = Inr v)
       \<and> (toUpperCase needle \<notin> fst ` set tbl \<longrightarrow> getApiValue API haystack needle = Inr Null)
       \<and> (\<forall>e. getApiValue API haystack needle \<noteq> Inl e)
       \<and> (\<forall>h n. toUpperCase h = toUpperCase haystack \<and> toUpperCase n = toUpperCase needle \<longrightarrow>
              getApiValue API h n = getApiValue API haystack needle)
       \<and> getApiValue API (toUpperCase haystack) (toUpperCase needle) =
           getApiValue API haystack needle"
proof (intro conjI allI impI)
  fix v assume "(toUpperCase needle, v) \<in> set tbl"
  with keys have "map_of tbl (toUpperCase needle) = Some v" by simp
  then show "getApiValue API haystack needle = Inr v"
    by (simp add: getApiValue_def tbl)
next
  assume "toUpperCase needle \<notin> fst ` set tbl"
  then have "map_of tbl (toUpperCase needle) = None" by (simp add: map_of_eq_None_iff)
  then show "getApiValue API haystack needle = Inr Null"
    by (simp add: getApiValue_def tbl)
next
  fix e show "getApiValue API haystack needle \<noteq> Inl e"
    by (simp add: getApiValue_def tbl split: option.splits)
next
  fix h n assume "toUpperCase h = toUpperCase haystack \<and> toUpperCase n = toUpperCase needle"
  then show "getApiValue API h n = getApiValue API haystack needle"
    by (simp add: getApiValue_def)
next
  show "getApiValue API (toUpperCase haystack) (toUpperCase needle) =
           getApiValue API haystack needle"
    by (simp add: getApiValue_def toUpperCase_idem)
qed

text \<open>An instance of claim C10.\<close>

theorem getApiValue_case_insensitive_lookup_witness:
  "getApiValue API_sample ''reply'' ''ack'' = Inr (Buf [1, 0])
   \<and> getApiValue API_sample ''reply'' ''nack'' = Inr Null
   \<and> getApiValue API_sample ''Reply'' ''Ack'' = getApiValue API_sample ''reply'' ''ack''"
proof -
  have up: "toUpperCase ''reply'' = ''REPLY''" "toUpperCase ''ack'' = ''ACK''"
    "toUpperCase ''nack'' = ''NACK''" "toUpperCase ''Reply'' = ''REPLY''"
    "toUpperCase ''Ack'' = ''ACK''"
    by code_simp+
  have t: "map_of (tables API_sample) (toUpperCase ''reply'') =
             Some [(''ACK'', Buf [1, 0]), (''BUSY'', Buf [1, 1])]"
    by (simp add: up sample_reply)
  have d: "distinct (map fst [(''ACK'', Buf [1, 0]), (''BUSY'', Buf [1, 1])])"
    by simp
  note T = getApiValue_case_insensitive_lookup [OF t d]
  have a: "getApiValue API_sample ''reply'' ''ack'' = Inr (Buf [1, 0])"
    by (rule T [of "''ack''", THEN conjunct1, rule_format]) (simp add: up)
  have n: "getApiValue API_sample ''reply'' ''nack'' = Inr Null"
    by (rule T [of "''nack''", THEN conjunct2, THEN conjunct1, rule_format]) (simp add: up)
  have c: "getApiValue API_sample ''Reply'' ''Ack'' = getApiValue API_sample ''reply'' ''ack''"
    by (rule T [of "''ack''", THEN conjunct2, THEN conjunct2, THEN conjunct2, THEN conjunct1,
          rule_format]) (simp add: up)
  from a n c show ?thesis by blast
qed

lemma classify_spec_first:
  "\<forall>(k', v') \<in> set pre. \<not> signature_matches b v' \<Longrightarrow> signature_matches b v \<Longrightarrow>
   classify_spec (pre @ (k, v) # post) d b = Known k"
  by (induction pre) auto

lemma classify_spec_no_match:
  "\<forall>(k, v) \<in> set reply. \<not> signature_matches (x # xs) v \<Longrightarrow>
   classify_spec reply d (x # xs) = (if uint x = d then DeviceInfo else Unrecognized)"
  by (induction reply) auto

text \<open>
  Claim C5. On a buffer of at least two bytes and a well-formed reply table,
  \<open>findApiReply\<close> computes the spec's classification: only the first two bytes are
  compared, signature by signature in the order of the table's keys, and the first
  signature that matches gives the result whatever bytes follow; when none matches and
  byte 0 is the \<open>DEVICE_INFO\<close> opcode the result is \<open>''DEVICE_INFO''\<close>.
\<close>

theorem findApiReply_first_match:
  assumes tbl: "map_of (tables API) ''REPLY'' = Some reply" and wf: "wf_reply reply"
    and len: "2 \<le> length b"
  shows "findApiReply API b =
           (case classify_spec reply (DEVICE_INFO (COMMAND API)) b of
              Known k \<Rightarrow> Inr k
            | DeviceInfo \<Rightarrow> Inr ''DEVICE_INFO''
            | Unrecognized \<Rightarrow> Inl UnrecognizedReply)
       \<and> (\<forall>pre k sig post.
             reply = pre @ (k, Buf sig) # post \<and> take 2 sig = take 2 b \<and>
             (\<forall>(k', v') \<in> set pre. \<not> signature_matches b v') \<longrightarrow>
             findApiReply API b = Inr k)
       \<and> (\<forall>b'. 2 \<le> length b' \<and> take 2 b' = take 2 b \<longrightarrow>
             findApiReply API b' = findApiReply API b)
       \<and> ((\<forall>(k, v) \<in> set reply. \<not> signature_matches b v) \<and>
           uint (hd b) = DEVICE_INFO (COMMAND API) \<longrightarrow>
             findApiReply API b = Inr ''DEVICE_INFO'')"
proof (intro conjI allI impI)
  show "findApiReply API b =
           (case classify_spec reply (DEVICE_INFO (COMMAND API)) b of
              Known k \<Rightarrow> Inr k
            | DeviceInfo \<Rightarrow> Inr ''DEVICE_INFO''
            | Unrecognized \<Rightarrow> Inl UnrecognizedReply)"
    by (rule findApiReply_classify [OF tbl wf len])
next
  fix pre k sig post
  assume a: "reply = pre @ (k, Buf sig) # post \<and> take 2 sig = take 2 b \<and>
             (\<forall>(k', v') \<in> set pre. \<not> signature_matches b v')"
  then have "signature_matches b (Buf sig)" by (simp add: signature_matches_def)
  with a have "classify_spec reply (DEVICE_INFO (COMMAND API)) b = Known k"
    by (simp add: classify_spec_first)
  then show "findApiReply API b = Inr k"
    by (simp add: findApiReply_classify [OF tbl wf len])
next
  fix b' assume a: "2 \<le> length b' \<and> take 2 b' = take 2 b"
  then have len': "2 \<le> length b'" and pre: "take 2 b' = take 2 b" by blast+
  have eq: "classify_spec reply (DEVICE_INFO (COMMAND API)) b' =
             classify_spec reply (DEVICE_INFO (COMMAND API)) b"
    by (rule classify_spec_prefix [OF len len' pre])
  show "findApiReply API b' = findApiReply API b"
    by (simp only: findApiReply_classify [OF tbl wf len] findApiReply_classify [OF tbl wf len'] eq)
next
  assume a: "(\<forall>(k, v) \<in> set reply. \<not> signature_matches b v) \<and>
           uint (hd b) = DEVICE_INFO (COMMAND API)"
  from len obtain x xs where b: "b = x # xs" by (cases b) auto
  from a have "classify_spec reply (DEVICE_INFO (COMMAND API)) b = DeviceInfo"
    unfolding b by (simp add: classify_spec_no_match)
  then show "findApiReply API b = Inr ''DEVICE_INFO''"
    by (simp add: findApiReply_classify [OF tbl wf len])
qed

text \<open>An instance of claim C5.\<close>

theorem findApiReply_first_match_witness:
  "findApiReply API_sample [1, 1, 7] = Inr ''BUSY''
   \<and> findApiReply API_sample [1, 1, 9, 9] = findApiReply API_sample [1, 1, 7]
   \<and> findApiReply API_sample [128, 0, 9] = Inr ''DEVICE_INFO''"
proof -
  have l: "2 \<le> length [1, 1, 7 :: byte]" "2 \<le> length [128, 0, 9 :: byte]" by simp_all
  note T1 = findApiReply_first_match [OF sample_reply wf_sample_reply l(1)]
  note T2 = findApiReply_first_match [OF sample_reply wf_sample_reply l(2)]
  have a: "findApiReply API_sample [1, 1, 7] = Inr ''BUSY''"
    using T1 [THEN conjunct1] by (simp add: signature_matches_def)
  have b: "findApiReply API_sample [1, 1, 9, 9] = findApiReply API_sample [1, 1, 7]"
    by (rule T1 [THEN conjunct2, THEN conjunct2, THEN conjunct1, rule_format]) simp
  have c: "findApiReply API_sample [128, 0, 9] = Inr ''DEVICE_INFO''"
    using T2 [THEN conjunct1] by (simp add: signature_matches_def sample_DEVICE_INFO)
  from a b c show ?thesis by blast
qed

text \<open>
  Claim C3, as stated, fails: an unrecognized reply is an exception of
  \<open>findApiReply\<close>, not a value it returns.
\<close>

theorem findApiReply_throws_unrecognized: "findApiReply API_sample [0, 0] = Inl UnrecognizedReply"
proof -
  have "2 \<le> length [0, 0 :: byte]" by simp
  from findApiReply_classify [OF sample_reply wf_sample_reply this]
  show ?thesis by (simp add: signature_matches_def sample_DEVICE_INFO)
qed

text \<open>
  Claim C3, amended. On a buffer of at least two bytes and a well-formed reply table,
  \<open>findApiReply\<close> has exactly one outcome, that of the spec's classification: it
  returns the name of a reply signature of the table or \<open>''DEVICE_INFO''\<close>, or the
  reply is unrecognized, which is an error it throws and not a value it returns. It
  throws that error exactly when no signature agrees with the first two bytes and
  byte 0 is not the \<open>DEVICE_INFO\<close> opcode, and it throws no other error.
\<close>

theorem findApiReply_outcomes:
  assumes tbl: "map_of (tables API) ''REPLY'' = Some reply" and wf: "wf_reply reply"
    and len: "2 \<le> length b"
  shows "findApiReply API b =
           (case classify_spec reply (DEVICE_INFO (COMMAND API)) b of
              Known k \<Rightarrow> Inr k
            | DeviceInfo \<Rightarrow> Inr ''DEVICE_INFO''
            | Unrecognized \<Rightarrow> Inl UnrecognizedReply)
       \<and> (\<forall>k. classify_spec reply (DEVICE_INFO (COMMAND API)) b = Known k \<longrightarrow>
             k \<in> fst ` set reply)
       \<and> (findApiReply API b = Inl UnrecognizedReply
          \<or> findApiReply API b = Inr ''DEVICE_INFO''
          \<or> (\<exists>k \<in> fst ` set reply. findApiReply API b = Inr k))
       \<and> (findApiReply API b = Inl UnrecognizedReply \<longleftrightarrow>
            (\<forall>(k, v) \<in> set reply. \<not> signature_matches b v) \<and>
            uint (hd b) \<noteq> DEVICE_INFO (COMMAND API))
       \<and> (\<forall>e. findApiReply API b = Inl e \<longrightarrow> e = UnrecognizedReply)"
proof -
  note F = findApiReply_classify [OF tbl wf len]
  from len have ne: "b \<noteq> []" by auto
  have K: "\<forall>k. classify_spec reply (DEVICE_INFO (COMMAND API)) b = Known k \<longrightarrow>
             k \<in> fst ` set reply"
    using classify_spec_Known by blast
  have R: "(findApiReply API b = Inl UnrecognizedReply
          \<or> findApiReply API b = Inr ''DEVICE_INFO''
          \<or> (\<exists>k \<in> fst ` set reply. findApiReply API b = Inr k))
       \<and> (findApiReply API b = Inl UnrecognizedReply \<longleftrightarrow>
            (\<forall>(k, v) \<in> set reply. \<not> signature_matches b v) \<and>
            uint (hd b) \<noteq> DEVICE_INFO (COMMAND API))
       \<and> (\<forall>e. findApiReply API b = Inl e \<longrightarrow> e = UnrecognizedReply)"
  proof (cases "classify_spec reply (DEVICE_INFO (COMMAND API)) b")
    case (Known k)
    then have "k \<in> fst ` set reply" by (rule classify_spec_Known)
    moreover from Known have "\<not> ((\<forall>(k, v) \<in> set reply. \<not> signature_matches b v) \<and>
            uint (hd b) \<noteq> DEVICE_INFO (COMMAND API))"
      using classify_spec_Unrecognized [OF ne, of reply "DEVICE_INFO (COMMAND API)"] by simp
    ultimately show ?thesis using Known by (auto simp: F)
  next
    case DeviceInfo
    then have "\<not> ((\<forall>(k, v) \<in> set reply. \<not> signature_matches b v) \<and>
            uint (hd b) \<noteq> DEVICE_INFO (COMMAND API))"
      using classify_spec_Unrecognized [OF ne, of reply "DEVICE_INFO (COMMAND API)"] by simp
    then show ?thesis using DeviceInfo by (simp add: F)
  next
    case Unrecognized
    then have "(\<forall>(k, v) \<in> set reply. \<not> signature_matches b v) \<and>
            uint (hd b) \<noteq> DEVICE_INFO (COMMAND API)"
      using classify_spec_Unrecognized [OF ne, of reply "DEVICE_INFO (COMMAND API)"] by simp
    then show ?thesis using Unrecognized by (simp add: F)
  qed
  from F K R show ?thesis by (intro conjI) blast+
qed

text \<open>An instance of the amended claim C3.\<close>

theorem findApiReply_outcomes_witness:
  "findApiReply API_sample [128, 5] \<noteq> Inl UnrecognizedReply
   \<and> findApiReply API_sample [1, 0, 3] = Inr ''ACK''"
proof -
  have l: "2 \<le> length [128, 5 :: byte]" "2 \<le> length [1, 0, 3 :: byte]" by simp_all
  note T1 = findApiReply_outcomes [OF sample_reply wf_sample_reply l(1)]
  note T2 = findApiReply_outcomes [OF sample_reply wf_sample_reply l(2)]
  have a: "findApiReply API_sample [128, 5] \<noteq> Inl UnrecognizedReply"
    using T1 [THEN conjunct2, THEN conjunct2, THEN conjunct2, THEN conjunct1]
    by (simp add: sample_DEVICE_INFO)
  have b: "findApiReply API_sample [1, 0, 3] = Inr ''ACK''"
    using T2 [THEN conjunct1] by (simp add: signature_matches_def)
  from a b show ?thesis by blast
qed

section \<open>Facts about the commands\<close>

lemma uint_byte: "is_byte v \<Longrightarrow> uint (word_of_int v :: byte) = v"
  by (simp add: is_byte_def uint_word_of_int)

lemma setWriteBufferByte_ok:
  "is_byte v \<Longrightarrow> i < length (buffer s) \<Longrightarrow>
   setWriteBufferByte i v s =
     Inr (s\<lparr>buffer := (buffer s)[i := Some (word_of_int v)], writeLog := writeLog s @ [i]\<rparr>)"
  by (auto simp: setWriteBufferByte_def writeUInt8_def is_byte_def)

lemma list_update_numeral: "(x # xs)[numeral k := y] = x # xs[pred_numeral k := y]"
  by (simp add: numeral_eq_Suc)

lemma replicate_numeral: "replicate (numeral k) x = x # replicate (pred_numeral k) x"
  by (simp add: numeral_eq_Suc)

lemmas run_simps = ok_def resetWriteBuffer_def writeToDevice_def setWriteBufferByte_ok
  BYTE_layout_def frame_def list_update_numeral replicate_numeral

lemma simpleColor_result:
  assumes "BYTE API = BYTE_layout" "is_byte (SET_COLOR_SIMPLE (COMMAND API))" "is_byte char"
  shows "simpleColor API char s =
     Inr (s\<lparr>buffer := frame [SET_COLOR_SIMPLE (COMMAND API), char], writeLog := [0, 1],
            transferred := transferred s @ [frame [SET_COLOR_SIMPLE (COMMAND API), char]]\<rparr>)"
  using assms by (simp add: simpleColor_def run_simps)

lemma color_result:
  assumes "BYTE API = BYTE_layout" "is_byte (SET_COLOR_NO_FADE (COMMAND API))"
    "is_byte led" "is_byte red" "is_byte green" "is_byte blue"
  shows "color API led red green blue s =
     Inr (s\<lparr>buffer := frame [SET_COLOR_NO_FADE (COMMAND API), led, red, green, blue],
            writeLog := [0, 1, 2, 3, 4],
            transferred := transferred s @
              [frame [SET_COLOR_NO_FADE (COMMAND API), led, red, green, blue]]\<rparr>)"
  using assms by (simp add: color_def run_simps)

lemma colorFade_result:
  assumes "BYTE API = BYTE_layout" "is_byte (SET_COLOR_FADE (COMMAND API))"
    "is_byte led" "is_byte red" "is_byte green" "is_byte blue" "is_byte time"
  shows "colorFade API led red green blue time s =
     Inr (s\<lparr>buffer := frame [SET_COLOR_FADE (COMMAND API), led, red, green, blue, time],
            writeLog := [0, 1, 2, 3, 4, 5],
            transferred := transferred s @
              [frame [SET_COLOR_FADE (COMMAND API), led, red, green, blue, time]]\<rparr>)"
  using assms by (simp add: colorFade_def run_simps)

lemma strobe_result:
  assumes "BYTE API = BYTE_layout" "is_byte (STROBE (COMMAND API))"
    "is_byte led" "is_byte red" "is_byte green" "is_byte blue" "is_byte time" "is_byte repeat"
  shows "strobe API led red green blue time repeat s =
     Inr (s\<lparr>buffer := frame [STROBE (COMMAND API), led, red, green, blue, time, 0, repeat],
            writeLog := [0, 1, 2, 3, 4, 5, 6, 7],
            transferred := transferred s @
              [frame [STROBE (COMMAND API), led, red, green, blue, time, 0, repeat]]\<rparr>)"
  using assms by (simp add: strobe_def run_simps is_byte_def)

lemma wave_result:
  assumes "BYTE API = BYTE_layout" "is_byte (WAVE (COMMAND API))"
    "is_byte type" "is_byte red" "is_byte green" "is_byte blue" "is_byte repeat" "is_byte speed"
  shows "wave API type red green blue repeat speed s =
     Inr (s\<lparr>buffer := frame [WAVE (COMMAND API), type, red, green, blue, 0, repeat, speed],
            writeLog := [0, 1, 2, 3, 4, 5, 6, 7],
            transferred := transferred s @
              [frame [WAVE (COMMAND API), type, red, green, blue, 0, repeat, speed]]\<rparr>)"
  using assms by (simp add: wave_def run_simps is_byte_def)

lemma pattern_result:
  assumes "BYTE API = BYTE_layout" "is_byte (PATTERN (COMMAND API))" "is_byte pat" "is_byte repeat"
  shows "pattern API pat repeat s =
     Inr (s\<lparr>buffer := frame [PATTERN (COMMAND API), pat, repeat], writeLog := [0, 1, 2],
            transferred := transferred s @ [frame [PATTERN (COMMAND API), pat, repeat]]\<rparr>)"
  using assms by (simp add: pattern_def run_simps)

lemma getDeviceInfo_result:
  assumes "BYTE API = BYTE_layout" "is_byte (DEVICE_INFO (COMMAND API))"
  shows "getDeviceInfo API s =
     Inr (length (promises s),
          s\<lparr>buffer := frame [DEVICE_INFO (COMMAND API)], writeLog := [0],
            transferred := transferred s @ [frame [DEVICE_INFO (COMMAND API)]],
            listeners := [DeviceInfoListener (length (promises s))], polling := True,
            promises := promises s @ [Pending]\<rparr>)"
  using assms
  by (simp add: getDeviceInfo_def run_simps new_Promise_def getDeviceInfo_executor_def
      startPoll_def on_data_def removeAllListeners_def Let_def)

lemma sent_bytes_append:
  "list_all is_byte vs \<Longrightarrow>
   sent_bytes (s\<lparr>buffer := b, writeLog := l, transferred := transferred s @ [frame vs]\<rparr>) =
     sent_bytes s @ [map Some vs]"
  by (simp add: sent_bytes_def frame_def list_all_iff uint_byte)

lemma seq_Cons_Inr:
  "seq (f # fs) s = Inr s' \<longleftrightarrow> (\<exists>s1. f s = Inr s1 \<and> seq fs s1 = Inr s')"
  by (cases "f s") auto

lemma setWriteBufferByte_Inr: "setWriteBufferByte i v s = Inr s' \<Longrightarrow> is_byte v"
  by (auto simp: setWriteBufferByte_def writeUInt8_def is_byte_def split: if_splits)

lemma strobe_Inr:
  assumes "strobe API led red green blue time repeat s = Inr s'"
  shows "is_byte (STROBE (COMMAND API)) \<and> is_byte led \<and> is_byte red \<and> is_byte green \<and>
         is_byte blue \<and> is_byte time \<and> is_byte repeat"
  using assms unfolding strobe_def seq_Cons_Inr
  by (blast dest: setWriteBufferByte_Inr)

lemma wf_commands_bytes:
  "wf_commands c \<Longrightarrow>
   is_byte (SET_COLOR_SIMPLE c) \<and> is_byte (SET_COLOR_NO_FADE c) \<and> is_byte (SET_COLOR_FADE c) \<and>
   is_byte (STROBE c) \<and> is_byte (WAVE c) \<and> is_byte (PATTERN c) \<and> is_byte (DEVICE_INFO c)"
  by (simp add: wf_commands_def)

lemma sample_layout: "BYTE API_sample = BYTE_layout"
  by (simp add: API_sample_def)

lemma sample_commands: "wf_commands (COMMAND API_sample)"
  by (simp add: API_sample_def wf_commands_def is_byte_def)

lemma sample_fields: "list_all is_byte [1, 1, 255, 0, 0, 5, 3, 2, 9, 4]"
  by (simp add: is_byte_def)

lemma upt_small:
  "[0..<1] = [0 :: nat]" "[0..<2] = [0, 1 :: nat]" "[0..<3] = [0, 1, 2 :: nat]"
  "[0..<5] = [0, 1, 2, 3, 4 :: nat]" "[0..<6] = [0, 1, 2, 3, 4, 5 :: nat]"
  "[0..<8] = [0, 1, 2, 3, 4, 5, 6, 7 :: nat]"
  by code_simp+

section \<open>Claims about the commands\<close>

text \<open>
  Claim C4. With the offsets of the layout table, opcodes that are bytes and fields
  that are bytes, every command sends one frame of the documented length, whose bytes
  are the opcode and the fields at their documented offsets and \<open>0\<close> at every padding
  offset. Whenever \<open>strobe\<close> returns, for any arguments, its frame has 8 bytes and
  offset 6 is \<open>0\<close>.
\<close>

theorem commands_encode_layout:
  assumes layout: "BYTE API = BYTE_layout" and ops: "wf_commands (COMMAND API)"
    and fields: "list_all is_byte [char, led, red, green, blue, time, repeat, type, speed, pat]"
  shows "(\<exists>s'. simpleColor API char s = Inr s' \<and>
            sent_bytes s' = sent_bytes s @ [map Some [SET_COLOR_SIMPLE (COMMAND API), char]])
       \<and> (\<exists>s'. color API led red green blue s = Inr s' \<and>
            sent_bytes s' =
              sent_bytes s @ [map Some [SET_COLOR_NO_FADE (COMMAND API), led, red, green, blue]])
       \<and> (\<exists>s'. colorFade API led red green blue time s = Inr s' \<and>
            sent_bytes s' =
              sent_bytes s @
                [map Some [SET_COLOR_FADE (COMMAND API), led, red, green, blue, time]])
       \<and> (\<exists>s'. strobe API led red green blue time repeat s = Inr s' \<and>
            sent_bytes s' =
              sent_bytes s @
                [map Some [STROBE (COMMAND API), led, red, green, blue, time, 0, repeat]])
       \<and> (\<exists>s'. wave API type red green blue repeat speed s = Inr s' \<and>
            sent_bytes s' =
              sent_bytes s @
                [map Some [WAVE (COMMAND API), type, red, green, blue, 0, repeat, speed]])
       \<and> (\<exists>s'. pattern API pat repeat s = Inr s' \<and>
            sent_bytes s' = sent_bytes s @ [map Some [PATTERN (COMMAND API), pat, repeat]])
       \<and> (\<exists>p s'. getDeviceInfo API s = Inr (p, s') \<and>
            sent_bytes s' = sent_bytes s @ [map Some [DEVICE_INFO (COMMAND API)]])
       \<and> (\<forall>l r g b t n s'. strobe API l r g b t n s = Inr s' \<longrightarrow>
            length (last (sent_bytes s')) = 8 \<and> last (sent_bytes s') ! 6 = Some 0)"
proof -
  note o = wf_commands_bytes [OF ops]
  from fields have f: "is_byte char" "is_byte led" "is_byte red" "is_byte green" "is_byte blue"
    "is_byte time" "is_byte repeat" "is_byte type" "is_byte speed" "is_byte pat"
    by simp_all
  have z: "is_byte 0" by (simp add: is_byte_def)
  have c1: "\<exists>s'. simpleColor API char s = Inr s' \<and>
            sent_bytes s' = sent_bytes s @ [map Some [SET_COLOR_SIMPLE (COMMAND API), char]]"
    using o f by (simp add: simpleColor_result [OF layout] sent_bytes_append)
  have c2: "\<exists>s'. color API led red green blue s = Inr s' \<and>
            sent_bytes s' =
              sent_bytes s @ [map Some [SET_COLOR_NO_FADE (COMMAND API), led, red, green, blue]]"
    using o f by (simp add: color_result [OF layout] sent_bytes_append)
  have c3: "\<exists>s'. colorFade API led red green blue time s = Inr s' \<and>
            sent_bytes s' =
              sent_bytes s @
                [map Some [SET_COLOR_FADE (COMMAND API), led, red, green, blue, time]]"
    using o f by (simp add: colorFade_result [OF layout] sent_bytes_append)
  have c4: "\<exists>s'. strobe API led red green blue time repeat s = Inr s' \<and>
            sent_bytes s' =
              sent_bytes s @
                [map Some [STROBE (COMMAND API), led, red, green, blue, time, 0, repeat]]"
    using o f z by (simp add: strobe_result [OF layout] sent_bytes_append)
  have c5: "\<exists>s'. wave API type red green blue repeat speed s = Inr s' \<and>
            sent_bytes s' =
              sent_bytes s @
                [map Some [WAVE (COMMAND API), type, red, green, blue, 0, repeat, speed]]"
    using o f z by (simp add: wave_result [OF layout] sent_bytes_append)
  have c6: "\<exists>s'. pattern API pat repeat s = Inr s' \<and>
            sent_bytes s' = sent_bytes s @ [map Some [PATTERN (COMMAND API), pat, repeat]]"
    using o f by (simp add: pattern_result [OF layout] sent_bytes_append)
  have c7: "\<exists>p s'. getDeviceInfo API s = Inr (p, s') \<and>
            sent_bytes s' = sent_bytes s @ [map Some [DEVICE_INFO (COMMAND API)]]"
    using o by (simp add: getDeviceInfo_result [OF layout] sent_bytes_def frame_def uint_byte)
  have c8: "\<forall>l r g b t n s'. strobe API l r g b t n s = Inr s' \<longrightarrow>
            length (last (sent_bytes s')) = 8 \<and> last (sent_bytes s') ! 6 = Some 0"
  proof (intro allI impI)
    fix l r g b t n s' assume a: "strobe API l r g b t n s = Inr s'"
    note y = strobe_Inr [OF a]
    from y have "strobe API l r g b t n s =
      Inr (s\<lparr>buffer := frame [STROBE (COMMAND API), l, r, g, b, t, 0, n],
            writeLog := [0, 1, 2, 3, 4, 5, 6, 7],
            transferred := transferred s @
              [frame [STROBE (COMMAND API), l, r, g, b, t, 0, n]]\<rparr>)"
      by (intro strobe_result [OF layout]) simp_all
    with a have "sent_bytes s' = sent_bytes s @ [map Some [STROBE (COMMAND API), l, r, g, b, t, 0, n]]"
      using y z by (auto simp: sent_bytes_append)
    then show "length (last (sent_bytes s')) = 8 \<and> last (sent_bytes s') ! 6 = Some 0"
      by simp
  qed
  from c1 c2 c3 c4 c5 c6 c7 c8 show ?thesis by blast
qed

text \<open>
  An instance of claim C4: \<open>color\<close> with led 1 and the colour 255, 0, 0 sends the five
  bytes opcode, 1, 255, 0, 0.
\<close>

theorem commands_encode_layout_witness:
  "(\<exists>s'. color API_sample 1 255 0 0 new_session = Inr s' \<and>
      sent_bytes s' = [[Some (SET_COLOR_NO_FADE (COMMAND API_sample)), Some 1, Some 255, Some 0, Some 0]])
   \<and> (\<exists>s'. strobe API_sample 1 255 0 0 5 3 new_session = Inr s' \<and>
      sent_bytes s' = [[Some (STROBE (COMMAND API_sample)), Some 1, Some 255, Some 0, Some 0, Some 5, Some 0, Some 3]])"
proof -
  have e: "sent_bytes new_session = []" by (simp add: sent_bytes_def new_session_def)
  note T = commands_encode_layout [OF sample_layout sample_commands sample_fields,
      of new_session]
  from T [THEN conjunct2, THEN conjunct1] T [THEN conjunct2, THEN conjunct2, THEN conjunct2, THEN conjunct1]
  show ?thesis by (simp add: e)
qed

text \<open>
  Claim C8. Under the same conditions every command writes each offset of its frame
  once, in the order \<open>0, 1, ...\<close>, before it transfers the buffer, and no cell of the
  buffer transferred is left unwritten.
\<close>

theorem commands_write_every_offset_once:
  assumes layout: "BYTE API = BYTE_layout" and ops: "wf_commands (COMMAND API)"
    and fields: "list_all is_byte [char, led, red, green, blue, time, repeat, type, speed, pat]"
  shows "(\<exists>s'. simpleColor API char s = Inr s' \<and> writeLog s' = [0..<2] \<and>
            length (buffer s') = 2 \<and> None \<notin> set (buffer s') \<and>
            transferred s' = transferred s @ [buffer s'])
       \<and> (\<exists>s'. color API led red green blue s = Inr s' \<and> writeLog s' = [0..<5] \<and>
            length (buffer s') = 5 \<and> None \<notin> set (buffer s') \<and>
            transferred s' = transferred s @ [buffer s'])
       \<and> (\<exists>s'. colorFade API led red green blue time s = Inr s' \<and> writeLog s' = [0..<6] \<and>
            length (buffer s') = 6 \<and> None \<notin> set (buffer s') \<and>
            transferred s' = transferred s @ [buffer s'])
       \<and> (\<exists>s'. strobe API led red green blue time repeat s = Inr s' \<and> writeLog s' = [0..<8] \<and>
            length (buffer s') = 8 \<and> None \<notin> set (buffer s') \<and>
            transferred s' = transferred s @ [buffer s'])
       \<and> (\<exists>s'. wave API type red green blue repeat speed s = Inr s' \<and> writeLog s' = [0..<8] \<and>
            length (buffer s') = 8 \<and> None \<notin> set (buffer s') \<and>
            transferred s' = transferred s @ [buffer s'])
       \<and> (\<exists>s'. pattern API pat repeat s = Inr s' \<and> writeLog s' = [0..<3] \<and>
            length (buffer s') = 3 \<and> None \<notin> set (buffer s') \<and>
            transferred s' = transferred s @ [buffer s'])
       \<and> (\<exists>p s'. getDeviceInfo API s = Inr (p, s') \<and> writeLog s' = [0..<1] \<and>
            length (buffer s') = 1 \<and> None \<notin> set (buffer s') \<and>
            transferred s' = transferred s @ [buffer s'])"
proof -
  note o = wf_commands_bytes [OF ops]
  from fields have f: "is_byte char" "is_byte led" "is_byte red" "is_byte green" "is_byte blue"
    "is_byte time" "is_byte repeat" "is_byte type" "is_byte speed" "is_byte pat"
    by simp_all
  have c1: "\<exists>s'. simpleColor API char s = Inr s' \<and> writeLog s' = [0..<2] \<and>
            length (buffer s') = 2 \<and> None \<notin> set (buffer s') \<and>
            transferred s' = transferred s @ [buffer s']"
    using o f by (simp add: simpleColor_result [OF layout] frame_def upt_small)
  have c2: "\<exists>s'. color API led red green blue s = Inr s' \<and> writeLog s' = [0..<5] \<and>
            length (buffer s') = 5 \<and> None \<notin> set (buffer s') \<and>
            transferred s' = transferred s @ [buffer s']"
    using o f by (simp add: color_result [OF layout] frame_def upt_small)
  have c3: "\<exists>s'. colorFade API led red green blue time s = Inr s' \<and> writeLog s' = [0..<6] \<and>
            length (buffer s') = 6 \<and> None \<notin> set (buffer s') \<and>
            transferred s' = transferred s @ [buffer s']"
    using o f by (simp add: colorFade_result [OF layout] frame_def upt_small)
  have c4: "\<exists>s'. strobe API led red green blue time repeat s = Inr s' \<and> writeLog s' = [0..<8] \<and>
            length (buffer s') = 8 \<and> None \<notin> set (buffer s') \<and>
            transferred s' = transferred s @ [buffer s']"
    using o f by (simp add: strobe_result [OF layout] frame_def upt_small)
  have c5: "\<exists>s'. wave API type red green blue repeat speed s = Inr s' \<and> writeLog s' = [0..<8] \<and>
            length (buffer s') = 8 \<and> None \<notin> set (buffer s') \<and>
            transferred s' = transferred s @ [buffer s']"
    using o f by (simp add: wave_result [OF layout] frame_def upt_small)
  have c6: "\<exists>s'. pattern API pat repeat s = Inr s' \<and> writeLog s' = [0..<3] \<and>
            length (buffer s') = 3 \<and> None \<notin> set (buffer s') \<and>
            transferred s' = transferred s @ [buffer s']"
    using o f by (simp add: pattern_result [OF layout] frame_def upt_small)
  have c7: "\<exists>p s'. getDeviceInfo API s = Inr (p, s') \<and> writeLog s' = [0..<1] \<and>
            length (buffer s') = 1 \<and> None \<notin> set (buffer s') \<and>
            transferred s' = transferred s @ [buffer s']"
    using o by (simp add: getDeviceInfo_result [OF layout] frame_def)
  from c1 c2 c3 c4 c5 c6 c7 show ?thesis by blast
qed

text \<open>An instance of claim C8.\<close>

theorem commands_write_every_offset_once_witness:
  "\<exists>s'. wave API_sample 2 255 0 0 3 9 new_session = Inr s' \<and> writeLog s' = [0, 1, 2, 3, 4, 5, 6, 7] \<and>
      length (buffer s') = 8 \<and> None \<notin> set (buffer s') \<and> transferred s' = [buffer s']"
proof -
  have e: "transferred new_session = []" by (simp add: new_session_def)
  note T = commands_write_every_offset_once [OF sample_layout sample_commands sample_fields,
      of new_session]
  from T [THEN conjunct2, THEN conjunct2, THEN conjunct2, THEN conjunct2, THEN conjunct1]
  show ?thesis by (simp add: e upt_small)
qed

section \<open>Facts about waits\<close>

text \<open>What a step leaves alone.\<close>

lemma setWriteBufferByte_wait:
  "setWriteBufferByte i v s = Inr s' \<Longrightarrow>
   listeners s' = listeners s \<and> polling s' = polling s \<and> promises s' = promises s \<and>
   timers s' = timers s \<and> now s' = now s"
  by (auto simp: setWriteBufferByte_def split: sum.splits)

lemma seq_same_wait:
  "\<forall>f \<in> set fs. \<forall>s s'. f s = Inr s' \<longrightarrow> same_wait s s' \<Longrightarrow>
   seq fs s = Inr s' \<Longrightarrow> same_wait s s'"
proof (induction fs arbitrary: s)
  case Nil
  then show ?case by (simp add: same_wait_def)
next
  case (Cons f fs)
  from Cons.prems(2) obtain s1 where 1: "f s = Inr s1" and 2: "seq fs s1 = Inr s'"
    by (auto split: sum.splits)
  from Cons.prems(1) 1 have "same_wait s s1" by simp
  moreover from Cons.IH [OF _ 2] Cons.prems(1) have "same_wait s1 s'" by simp
  ultimately show ?case by (simp add: same_wait_def)
qed

lemma write_steps_same_wait:
  "ok (resetWriteBuffer n) s = Inr s' \<Longrightarrow> same_wait s s'"
  "setWriteBufferByte i v s = Inr s' \<Longrightarrow> same_wait s s'"
  "ok writeToDevice s = Inr s' \<Longrightarrow> same_wait s s'"
  by (auto simp: same_wait_def ok_def resetWriteBuffer_def writeToDevice_def
      dest: setWriteBufferByte_wait)

lemma commands_same_wait:
  "simpleColor API c s = Inr s' \<Longrightarrow> same_wait s s'"
  "color API l r g b s = Inr s' \<Longrightarrow> same_wait s s'"
  "colorFade API l r g b t s = Inr s' \<Longrightarrow> same_wait s s'"
  "strobe API l r g b t n s = Inr s' \<Longrightarrow> same_wait s s'"
  "wave API w r g b n v s = Inr s' \<Longrightarrow> same_wait s s'"
  "pattern API i n s = Inr s' \<Longrightarrow> same_wait s s'"
  unfolding simpleColor_def color_def colorFade_def strobe_def wave_def pattern_def
  by (erule seq_same_wait [rotated]; auto intro: write_steps_same_wait)+

lemma init_same_wait: "same_wait s (init s)"
  by (simp add: same_wait_def init_def writeToDevice_def)

lemma resolve_simps:
  "listeners (resolve p v s) = listeners s" "polling (resolve p v s) = polling s"
  "timers (resolve p v s) = timers s" "now (resolve p v s) = now s"
  "length (promises (resolve p v s)) = length (promises s)"
  by (simp_all add: resolve_def)

lemma reject_simps:
  "listeners (reject p e s) = listeners s" "polling (reject p e s) = polling s"
  "timers (reject p e s) = timers s" "now (reject p e s) = now s"
  "length (promises (reject p e s)) = length (promises s)"
  by (simp_all add: reject_def)

lemma resolve_other: "q \<noteq> p \<Longrightarrow> promises (resolve p v s) ! q = promises s ! q"
  by (simp add: resolve_def)

lemma reject_other: "q \<noteq> p \<Longrightarrow> promises (reject p e s) ! q = promises s ! q"
  by (simp add: reject_def)

lemma resolve_settled: "promises s ! q \<noteq> Pending \<Longrightarrow> promises (resolve p v s) ! q = promises s ! q"
  by (cases "q = p") (simp_all add: resolve_def)

lemma reject_settled: "promises s ! q \<noteq> Pending \<Longrightarrow> promises (reject p e s) ! q = promises s ! q"
  by (cases "q = p") (simp_all add: reject_def)

text \<open>A listener call.\<close>

lemma listener_call_frame:
  assumes "listener_call API l b s = Inr s'"
  shows "listeners s' = listeners s" and "timers s' = timers s" and "now s' = now s"
    and "length (promises s') = length (promises s)"
  using assms
  by (cases l; auto simp: resolve_simps stopPoll_def split: sum.splits if_splits)+

lemma listener_call_other:
  assumes "listener_call API l b s = Inr s'" "listener_promise l \<noteq> q"
  shows "promises s' ! q = promises s ! q"
  using assms
  by (cases l; auto simp: resolve_other stopPoll_def split: sum.splits if_splits)

lemma listener_call_settled:
  assumes "listener_call API l b s = Inr s'" "promises s ! q \<noteq> Pending"
  shows "promises s' ! q = promises s ! q"
  using assms
  by (cases l; auto simp: resolve_settled stopPoll_def split: sum.splits if_splits)

lemma listener_call_result:
  assumes "listener_call API l b s = Inr s'"
  shows "promises s' ! q = promises s ! q \<or> promises s' ! q = Fulfilled b"
  using assms
  by (cases l; cases "q = listener_promise l";
      auto simp: resolve_def stopPoll_def split: sum.splits if_splits)

lemma seq_listener_calls:
  "seq (map (\<lambda>l. listener_call API l b) ls) s = Inr s' \<Longrightarrow>
   listeners s' = listeners s \<and> timers s' = timers s \<and> now s' = now s \<and>
   length (promises s') = length (promises s) \<and>
   ((\<forall>l \<in> set ls. listener_promise l \<noteq> q) \<longrightarrow> promises s' ! q = promises s ! q) \<and>
   (promises s ! q \<noteq> Pending \<longrightarrow> promises s' ! q = promises s ! q) \<and>
   (promises s' ! q = promises s ! q \<or> promises s' ! q = Fulfilled b)"
proof (induction ls arbitrary: s)
  case Nil
  then show ?case by simp
next
  case (Cons l ls)
  from Cons.prems obtain s1 where 1: "listener_call API l b s = Inr s1"
    and 2: "seq (map (\<lambda>l. listener_call API l b) ls) s1 = Inr s'"
    by (auto split: sum.splits)
  note f = listener_call_frame [OF 1]
  note IH = Cons.IH [OF 2]
  show ?case
    using f IH listener_call_other [OF 1, of q] listener_call_settled [OF 1, of q]
      listener_call_result [OF 1, of q]
    by auto
qed

lemma emit_data_frame:
  assumes "emit_data API b s = Inr s'"
  shows "listeners s' = listeners s" "timers s' = timers s" "now s' = now s"
    "length (promises s') = length (promises s)"
  using seq_listener_calls [OF assms [unfolded emit_data_def]] by simp_all

lemma emit_data_other:
  assumes "emit_data API b s = Inr s'" "\<forall>l \<in> set (listeners s). listener_promise l \<noteq> q"
  shows "promises s' ! q = promises s ! q"
  using seq_listener_calls [OF assms(1) [unfolded emit_data_def], of q] assms(2) by simp

lemma emit_data_result:
  assumes "emit_data API b s = Inr s'"
  shows "promises s' ! q = promises s ! q \<or> promises s' ! q = Fulfilled b"
  using seq_listener_calls [OF assms [unfolded emit_data_def], of q] by simp

lemma emit_data_settled:
  assumes "emit_data API b s = Inr s'" "promises s ! q \<noteq> Pending"
  shows "promises s' ! q = promises s ! q"
  using seq_listener_calls [OF assms(1) [unfolded emit_data_def], of q] assms(2) by simp

text \<open>Arming a wait.\<close>

lemma getDeviceInfo_arm:
  assumes "getDeviceInfo API s = Inr (p, s')"
  shows "p = length (promises s)" "listeners s' = [DeviceInfoListener p]" "polling s'"
    "promises s' = promises s @ [Pending]" "timers s' = timers s" "now s' = now s"
proof -
  from assms obtain s1 where 1: "seq [ok (resetWriteBuffer 1),
                setWriteBufferByte (BYTE_COMMAND (BYTE API)) (DEVICE_INFO (COMMAND API)),
                ok writeToDevice] s = Inr s1" and 2: "new_Promise getDeviceInfo_executor s1 = (p, s')"
    by (auto simp: getDeviceInfo_def split: sum.splits)
  have "same_wait s s1"
    by (rule seq_same_wait [OF _ 1]) (auto intro: write_steps_same_wait)
  with 2 show "p = length (promises s)" "listeners s' = [DeviceInfoListener p]" "polling s'"
    "promises s' = promises s @ [Pending]" "timers s' = timers s" "now s' = now s"
    by (auto simp: same_wait_def new_Promise_def getDeviceInfo_executor_def startPoll_def
        on_data_def removeAllListeners_def Let_def)
qed

lemma readFromDeviceUntil_arm:
  assumes "readFromDeviceUntil type s = (p, s')"
  shows "p = length (promises s)" "listeners s' = [UntilListener p type]" "polling s'"
    "promises s' = promises s @ [Pending]" "timers s' = timers s @ [(now s + 1900, p)]"
    "now s' = now s"
  using assms
  by (auto simp: readFromDeviceUntil_def commit_def new_Promise_def
      readFromDeviceUntil_executor_def startPoll_def on_data_def removeAllListeners_def Let_def)

text \<open>Timers.\<close>

lemma fold_reject:
  "listeners (fold (\<lambda>(d, p). reject p e) ts s) = listeners s \<and>
   polling (fold (\<lambda>(d, p). reject p e) ts s) = polling s \<and>
   timers (fold (\<lambda>(d, p). reject p e) ts s) = timers s \<and>
   now (fold (\<lambda>(d, p). reject p e) ts s) = now s \<and>
   length (promises (fold (\<lambda>(d, p). reject p e) ts s)) = length (promises s) \<and>
   (promises s ! q \<noteq> Pending \<longrightarrow>
      promises (fold (\<lambda>(d, p). reject p e) ts s) ! q = promises s ! q) \<and>
   (promises (fold (\<lambda>(d, p). reject p e) ts s) ! q = promises s ! q \<or>
    promises (fold (\<lambda>(d, p). reject p e) ts s) ! q = Rejected e) \<and>
   (q < length (promises s) \<and> q \<in> snd ` set ts \<longrightarrow>
      promises (fold (\<lambda>(d, p). reject p e) ts s) ! q \<noteq> Pending)"
proof (induction ts arbitrary: s)
  case Nil
  then show ?case by simp
next
  case (Cons t ts)
  obtain d p where t: "t = (d, p)" by (cases t)
  have r: "promises (reject p e s) ! q = promises s ! q \<or> promises (reject p e s) ! q = Rejected e"
    by (cases "q = p") (simp_all add: reject_def)
  have h: "q < length (promises s) \<Longrightarrow> q = p \<Longrightarrow> promises (reject p e s) ! q \<noteq> Pending"
    by (simp add: reject_def)
  show ?case
    using Cons.IH [of "reject p e s"] r h reject_settled [of s q p e]
    by (auto simp: t reject_simps)
qed

lemma elapse_frame:
  "listeners (elapse ms s) = listeners s" "polling (elapse ms s) = polling s"
  "now (elapse ms s) = now s + ms"
  "timers (elapse ms s) = filter (\<lambda>(deadline, p). \<not> deadline \<le> now s + ms) (timers s)"
  "length (promises (elapse ms s)) = length (promises s)"
  by (simp_all add: elapse_def Let_def fold_reject)

lemma elapse_settled:
  "promises s ! q \<noteq> Pending \<Longrightarrow> promises (elapse ms s) ! q = promises s ! q"
  using fold_reject [of WaitTimedOut
      "filter (\<lambda>(deadline, p). deadline \<le> now s + ms) (timers s)"
      "s\<lparr>timers := filter (\<lambda>(deadline, p). \<not> deadline \<le> now s + ms) (timers s),
         now := now s + ms\<rparr>" q]
  by (simp add: elapse_def Let_def)

lemma elapse_result:
  "promises (elapse ms s) ! q = promises s ! q \<or> promises (elapse ms s) ! q = Rejected WaitTimedOut"
  using fold_reject [of WaitTimedOut
      "filter (\<lambda>(deadline, p). deadline \<le> now s + ms) (timers s)"
      "s\<lparr>timers := filter (\<lambda>(deadline, p). \<not> deadline \<le> now s + ms) (timers s),
         now := now s + ms\<rparr>" q]
  by (simp add: elapse_def Let_def)

lemma elapse_due:
  assumes "(d, q) \<in> set (timers s)" "d \<le> now s + ms" "q < length (promises s)"
  shows "promises (elapse ms s) ! q \<noteq> Pending"
proof -
  from assms(1,2) have "q \<in> snd ` set (filter (\<lambda>(deadline, p). deadline \<le> now s + ms) (timers s))"
    by force
  with assms(3) show ?thesis
    using fold_reject [of WaitTimedOut
      "filter (\<lambda>(deadline, p). deadline \<le> now s + ms) (timers s)"
      "s\<lparr>timers := filter (\<lambda>(deadline, p). \<not> deadline \<le> now s + ms) (timers s),
         now := now s + ms\<rparr>" q]
    by (simp add: elapse_def Let_def)
qed

text \<open>Runs.\<close>

lemma run_Nil: "run API [] s = Inr s"
  by (simp add: run_def)

lemma run_Cons:
  "run API (c # cs) s = Inr s' \<longleftrightarrow> (\<exists>s1. perform API c s = Inr s1 \<and> run API cs s1 = Inr s')"
  unfolding run_def list.map by (rule seq_Cons_Inr)

lemma run_invariant:
  assumes step: "\<And>c s s'. P s \<Longrightarrow> perform API c s = Inr s' \<Longrightarrow> P s'"
  shows "P s \<Longrightarrow> run API cs s = Inr s' \<Longrightarrow> P s'"
proof (induction cs arbitrary: s)
  case Nil
  then show ?case by (simp add: run_Nil)
next
  case (Cons c cs)
  from Cons.prems(2) obtain s1 where 1: "perform API c s = Inr s1" and 2: "run API cs s1 = Inr s'"
    by (auto simp: run_Cons)
  from step [OF Cons.prems(1) 1] have "P s1" .
  from Cons.IH [OF this 2] show ?case .
qed

lemma perform_cases:
  assumes "perform API c s = Inr s'"
  obtains (unchanged) "same_wait s s'"
  | (info) p where "getDeviceInfo API s = Inr (p, s')"
  | (until) p type where "readFromDeviceUntil type s = (p, s')"
  | (data) b where "emit_data API b s = Inr s'"
  | (elapse) ms where "s' = elapse ms s"
proof (cases c)
  case GetDeviceInfo
  with assms obtain p where "getDeviceInfo API s = Inr (p, s')"
    by (cases "getDeviceInfo API s") auto
  then show ?thesis by (rule info)
next
  case (ReadFromDeviceUntil type)
  with assms have "readFromDeviceUntil type s = (fst (readFromDeviceUntil type s), s')" by auto
  then show ?thesis by (rule until)
qed (use assms in \<open>auto intro: that commands_same_wait init_same_wait\<close>)

section \<open>Claims about waits\<close>

lemma perform_listeners:
  assumes "perform API c s = Inr s'" "length (listeners s) \<le> 1"
  shows "length (listeners s') \<le> 1"
  using assms(1)
proof (cases rule: perform_cases)
  case unchanged
  with assms(2) show ?thesis by (simp add: same_wait_def)
next
  case (info p)
  then show ?thesis by (simp add: getDeviceInfo_arm)
next
  case (until p type)
  then show ?thesis by (simp add: readFromDeviceUntil_arm)
next
  case (data b)
  with assms(2) show ?thesis by (simp add: emit_data_frame)
next
  case (elapse ms)
  with assms(2) show ?thesis by (simp add: elapse_frame)
qed

lemma run_data_other:
  "\<forall>l \<in> set (listeners s). listener_promise l \<noteq> q \<Longrightarrow>
   run API (map Data bs) s = Inr s' \<Longrightarrow> promises s' ! q = promises s ! q"
proof (induction bs arbitrary: s)
  case Nil
  then show ?case by (simp add: run_Nil)
next
  case (Cons b bs)
  from Cons.prems(2) obtain s1 where 1: "emit_data API b s = Inr s1"
    and 2: "run API (map Data bs) s1 = Inr s'"
    by (auto simp: run_Cons)
  from emit_data_frame(1) [OF 1] Cons.prems(1)
  have "\<forall>l \<in> set (listeners s1). listener_promise l \<noteq> q" by simp
  from Cons.IH [OF this 2] emit_data_other [OF 1 Cons.prems(1)] show ?case by simp
qed

text \<open>
  Claim C9. Arming a wait, by \<open>getDeviceInfo\<close> or by \<open>readFromDeviceUntil\<close>, leaves
  the new listener as the only data listener, whatever listeners were registered
  before; in every run of a session at most one data listener is registered; and a
  wait that was pending when the new one was armed is dropped: no buffer the device
  sends afterwards resolves it.
\<close>

theorem arming_replaces_listeners:
  "(\<forall>p s1. getDeviceInfo API s = Inr (p, s1) \<longrightarrow> listeners s1 = [DeviceInfoListener p])
   \<and> (\<forall>p s1. readFromDeviceUntil type s = (p, s1) \<longrightarrow> listeners s1 = [UntilListener p type])
   \<and> (\<forall>cs s'. run API cs new_session = Inr s' \<longrightarrow> length (listeners s') \<le> 1)
   \<and> (\<forall>q p s1 bs s2.
         q < length (promises s) \<and> promises s ! q = Pending \<and>
         (getDeviceInfo API s = Inr (p, s1) \<or> readFromDeviceUntil type s = (p, s1)) \<and>
         run API (map Data bs) s1 = Inr s2 \<longrightarrow>
         promises s2 ! q = Pending)"
proof (intro conjI allI impI)
  fix p s1 assume "getDeviceInfo API s = Inr (p, s1)"
  then show "listeners s1 = [DeviceInfoListener p]" by (rule getDeviceInfo_arm)
next
  fix p s1 assume "readFromDeviceUntil type s = (p, s1)"
  then show "listeners s1 = [UntilListener p type]" by (rule readFromDeviceUntil_arm)
next
  fix cs s' assume r: "run API cs new_session = Inr s'"
  have "length (listeners new_session) \<le> 1" by (simp add: new_session_def)
  from run_invariant [of "\<lambda>s. length (listeners s) \<le> 1" API, OF _ this r] perform_listeners
  show "length (listeners s') \<le> 1" by blast
next
  fix q p s1 bs s2
  assume a: "q < length (promises s) \<and> promises s ! q = Pending \<and>
         (getDeviceInfo API s = Inr (p, s1) \<or> readFromDeviceUntil type s = (p, s1)) \<and>
         run API (map Data bs) s1 = Inr s2"
  then have q: "q < length (promises s)" and pend: "promises s ! q = Pending"
    and r: "run API (map Data bs) s1 = Inr s2" by blast+
  from a have "getDeviceInfo API s = Inr (p, s1) \<or> readFromDeviceUntil type s = (p, s1)" by blast
  then have "p = length (promises s) \<and> promises s1 = promises s @ [Pending] \<and>
     (\<forall>l \<in> set (listeners s1). listener_promise l = p)"
    by (auto simp: getDeviceInfo_arm readFromDeviceUntil_arm)
  then have ne: "\<forall>l \<in> set (listeners s1). listener_promise l \<noteq> q"
    and same: "promises s1 ! q = promises s ! q"
    using q by (auto simp: nth_append)
  from run_data_other [OF ne r] same pend show "promises s2 ! q = Pending" by simp
qed

lemma sample_info_twice:
  "run API_sample [GetDeviceInfo, GetDeviceInfo, Data [128, 7]] new_session =
     Inr \<lparr>buffer = [Some 128], writeLog = [0], transferred = [[Some 128], [Some 128]],
          listeners = [DeviceInfoListener 1], polling = False,
          promises = [Pending, Fulfilled [128, 7]], timers = [], now = 0\<rparr>"
  by code_simp

lemma sample_info:
  "getDeviceInfo API_sample new_session =
     Inr (0, \<lparr>buffer = [Some 128], writeLog = [0], transferred = [[Some 128]],
          listeners = [DeviceInfoListener 0], polling = True,
          promises = [Pending], timers = [], now = 0\<rparr>)"
  by code_simp

lemma sample_info_again:
  "getDeviceInfo API_sample \<lparr>buffer = [Some 128], writeLog = [0], transferred = [[Some 128]],
          listeners = [DeviceInfoListener 0], polling = True,
          promises = [Pending], timers = [], now = 0\<rparr> =
     Inr (1, \<lparr>buffer = [Some 128], writeLog = [0], transferred = [[Some 128], [Some 128]],
          listeners = [DeviceInfoListener 1], polling = True,
          promises = [Pending, Pending], timers = [], now = 0\<rparr>)"
  by code_simp

lemma sample_info_data:
  "run API_sample (map Data [[128, 7], [128, 8]])
      \<lparr>buffer = [Some 128], writeLog = [0], transferred = [[Some 128], [Some 128]],
          listeners = [DeviceInfoListener 1], polling = True,
          promises = [Pending, Pending], timers = [], now = 0\<rparr> =
     Inr \<lparr>buffer = [Some 128], writeLog = [0], transferred = [[Some 128], [Some 128]],
          listeners = [DeviceInfoListener 1], polling = False,
          promises = [Pending, Fulfilled [128, 7]], timers = [], now = 0\<rparr>"
  by code_simp

text \<open>
  An instance of claim C9: \<open>getDeviceInfo\<close> is called twice and the device then sends
  two device-info buffers; the first wait stays pending.
\<close>

theorem arming_replaces_listeners_witness:
  "length (listeners \<lparr>buffer = [Some 128], writeLog = [0],
          transferred = [[Some 128], [Some 128]],
          listeners = [DeviceInfoListener 1], polling = False,
          promises = [Pending, Fulfilled [128, 7]], timers = [], now = 0\<rparr>) \<le> 1
   \<and> promises \<lparr>buffer = [Some 128], writeLog = [0], transferred = [[Some 128], [Some 128]],
          listeners = [DeviceInfoListener 1], polling = False,
          promises = [Pending, Fulfilled [128, 7]], timers = [], now = 0\<rparr> ! 0 = Pending"
proof -
  let ?s0 = "\<lparr>buffer = [Some 128], writeLog = [0], transferred = [[Some 128]],
          listeners = [DeviceInfoListener 0], polling = True,
          promises = [Pending], timers = [], now = 0\<rparr>"
  let ?s1 = "\<lparr>buffer = [Some 128], writeLog = [0], transferred = [[Some 128], [Some 128]],
          listeners = [DeviceInfoListener 1], polling = True,
          promises = [Pending, Pending], timers = [], now = 0\<rparr>"
  let ?s2 = "\<lparr>buffer = [Some 128], writeLog = [0], transferred = [[Some 128], [Some 128]],
          listeners = [DeviceInfoListener 1], polling = False,
          promises = [Pending, Fulfilled [128, 7]], timers = [], now = 0\<rparr>"
  note T = arming_replaces_listeners [of API_sample ?s0 "[]"]
  have a: "length (listeners ?s2) \<le> 1"
    by (rule T [THEN conjunct2, THEN conjunct2, THEN conjunct1, rule_format,
          OF sample_info_twice])
  have h: "0 < length (promises ?s0) \<and> promises ?s0 ! 0 = Pending \<and>
         (getDeviceInfo API_sample ?s0 = Inr (1, ?s1) \<or> readFromDeviceUntil [] ?s0 = (1, ?s1)) \<and>
         run API_sample (map Data [[128, 7], [128, 8]]) ?s1 = Inr ?s2"
    using sample_info_again sample_info_data by simp
  have b: "promises ?s2 ! 0 = Pending"
    by (rule T [THEN conjunct2, THEN conjunct2, THEN conjunct2, rule_format, OF h])
  from a b show ?thesis by blast
qed

lemma listener_call_poll:
  assumes "listener_call API l b s = Inr s'"
  shows "(\<not> polling s \<longrightarrow> \<not> polling s') \<and> (promises s' ! q \<noteq> promises s ! q \<longrightarrow> \<not> polling s')"
  using assms
  by (cases l; auto simp: resolve_def stopPoll_def split: sum.splits if_splits)

lemma seq_listener_calls_poll:
  "seq (map (\<lambda>l. listener_call API l b) ls) s = Inr s' \<Longrightarrow>
   (\<not> polling s \<longrightarrow> \<not> polling s') \<and> (promises s' ! q \<noteq> promises s ! q \<longrightarrow> \<not> polling s')"
proof (induction ls arbitrary: s)
  case Nil
  then show ?case by simp
next
  case (Cons l ls)
  from Cons.prems obtain s1 where 1: "listener_call API l b s = Inr s1"
    and 2: "seq (map (\<lambda>l. listener_call API l b) ls) s1 = Inr s'"
    by (auto split: sum.splits)
  from listener_call_poll [OF 1, of q] Cons.IH [OF 2] show ?case by metis
qed

lemma emit_data_settles:
  assumes e: "emit_data API b s = Inr s'" and p: "promises s ! q = Pending"
    and n: "promises s' ! q \<noteq> Pending"
  shows "promises s' ! q = Fulfilled b \<and> \<not> polling s' \<and> listeners s' = listeners s"
proof -
  from emit_data_result [OF e, of q] p n have "promises s' ! q = Fulfilled b" by auto
  moreover from seq_listener_calls_poll [OF e [unfolded emit_data_def], of q] p n
  have "\<not> polling s'" by auto
  ultimately show ?thesis using emit_data_frame(1) [OF e] by simp
qed

lemma perform_keeps_listeners:
  assumes "perform API c s = Inr s'" "\<not> is_arm c"
  shows "listeners s' = listeners s"
proof (cases c)
  case (Data b)
  with assms show ?thesis by (simp add: emit_data_frame)
next
  case (Elapse ms)
  with assms show ?thesis by (auto simp: elapse_frame)
qed (use assms in \<open>auto dest: commands_same_wait simp: same_wait_def init_same_wait [unfolded same_wait_def]\<close>)

lemma run_keeps_listeners:
  "run API cs s = Inr s' \<Longrightarrow> list_all (\<lambda>c. \<not> is_arm c) cs \<Longrightarrow> listeners s' = listeners s"
proof (induction cs arbitrary: s)
  case Nil
  then show ?case by (simp add: run_Nil)
next
  case (Cons c cs)
  from Cons.prems(1) obtain s1 where 1: "perform API c s = Inr s1" and 2: "run API cs s1 = Inr s'"
    by (auto simp: run_Cons)
  from Cons.prems(2) have "\<not> is_arm c" "list_all (\<lambda>c. \<not> is_arm c) cs" by simp_all
  with perform_keeps_listeners [OF 1] Cons.IH [OF 2] show ?case by simp
qed

text \<open>
  Claim C7, amended. Each call that expects a reply leaves exactly one data listener
  registered, its own, and the poll started, with its wait pending. When a buffer from
  the device settles a pending wait, in any state of the session, the wait is
  fulfilled with that buffer and the poll is stopped, and the listeners are the same
  as before: the subscription is not torn down at settlement. The listeners stay as
  they are through every command, every buffer from the device and every lapse of
  time, a timeout included, until the next call that expects a reply, which removes
  them (claim C9). Nothing is said of the poll when the timeout elapses.
\<close>

theorem match_stops_poll_keeps_listener:
  "(\<forall>p s1. getDeviceInfo API s = Inr (p, s1) \<longrightarrow>
      listeners s1 = [DeviceInfoListener p] \<and> polling s1 \<and> promises s1 ! p = Pending)
   \<and> (\<forall>p s1. readFromDeviceUntil type s = (p, s1) \<longrightarrow>
      listeners s1 = [UntilListener p type] \<and> polling s1 \<and> promises s1 ! p = Pending)
   \<and> (\<forall>q b s'. emit_data API b s = Inr s' \<and> promises s ! q = Pending \<and>
        promises s' ! q \<noteq> Pending \<longrightarrow>
        promises s' ! q = Fulfilled b \<and> \<not> polling s' \<and> listeners s' = listeners s)
   \<and> (\<forall>cs s'. run API cs s = Inr s' \<and> list_all (\<lambda>c. \<not> is_arm c) cs \<longrightarrow>
        listeners s' = listeners s)"
proof -
  have a: "\<forall>p s1. getDeviceInfo API s = Inr (p, s1) \<longrightarrow>
      listeners s1 = [DeviceInfoListener p] \<and> polling s1 \<and> promises s1 ! p = Pending"
  proof (intro allI impI)
    fix p s1 assume arm: "getDeviceInfo API s = Inr (p, s1)"
    note g = getDeviceInfo_arm [OF arm]
    from g(1) g(4) have "promises s1 ! p = Pending" by (simp add: nth_append)
    with g(2) g(3)
    show "listeners s1 = [DeviceInfoListener p] \<and> polling s1 \<and> promises s1 ! p = Pending"
      by simp
  qed
  have b: "\<forall>p s1. readFromDeviceUntil type s = (p, s1) \<longrightarrow>
      listeners s1 = [UntilListener p type] \<and> polling s1 \<and> promises s1 ! p = Pending"
  proof (intro allI impI)
    fix p s1 assume arm: "readFromDeviceUntil type s = (p, s1)"
    note g = readFromDeviceUntil_arm [OF arm]
    from g(1) g(4) have "promises s1 ! p = Pending" by (simp add: nth_append)
    with g(2) g(3)
    show "listeners s1 = [UntilListener p type] \<and> polling s1 \<and> promises s1 ! p = Pending"
      by simp
  qed
  have c: "\<forall>q b s'. emit_data API b s = Inr s' \<and> promises s ! q = Pending \<and>
        promises s' ! q \<noteq> Pending \<longrightarrow>
        promises s' ! q = Fulfilled b \<and> \<not> polling s' \<and> listeners s' = listeners s"
    using emit_data_settles by blast
  have d: "\<forall>cs s'. run API cs s = Inr s' \<and> list_all (\<lambda>c. \<not> is_arm c) cs \<longrightarrow>
        listeners s' = listeners s"
    using run_keeps_listeners by blast
  from a b c d show ?thesis by blast
qed

lemma sample_info_match:
  "emit_data API_sample [128, 7]
     \<lparr>buffer = [Some 128], writeLog = [0], transferred = [[Some 128]],
          listeners = [DeviceInfoListener 0], polling = True,
          promises = [Pending], timers = [], now = 0\<rparr> =
   Inr \<lparr>buffer = [Some 128], writeLog = [0], transferred = [[Some 128]],
          listeners = [DeviceInfoListener 0], polling = False,
          promises = [Fulfilled [128, 7]], timers = [], now = 0\<rparr>"
  by code_simp

lemma sample_info_later:
  "run API_sample [Data [128, 7], Elapse 1900, Color 1 255 0 0]
     \<lparr>buffer = [Some 128], writeLog = [0], transferred = [[Some 128]],
          listeners = [DeviceInfoListener 0], polling = True,
          promises = [Pending], timers = [], now = 0\<rparr> =
   Inr \<lparr>buffer = [Some 1, Some 1, Some 255, Some 0, Some 0], writeLog = [0, 1, 2, 3, 4],
          transferred = [[Some 128], [Some 1, Some 1, Some 255, Some 0, Some 0]],
          listeners = [DeviceInfoListener 0], polling = False,
          promises = [Fulfilled [128, 7]], timers = [], now = 1900\<rparr>"
  by code_simp

text \<open>An instance of the amended claim C7.\<close>

theorem match_stops_poll_keeps_listener_witness:
  "\<exists>s1 s2 s3. getDeviceInfo API_sample new_session = Inr (0, s1) \<and>
      listeners s1 = [DeviceInfoListener 0] \<and> polling s1 \<and>
      emit_data API_sample [128, 7] s1 = Inr s2 \<and>
      promises s2 ! 0 = Fulfilled [128, 7] \<and> \<not> polling s2 \<and> listeners s2 = listeners s1 \<and>
      run API_sample [Data [128, 7], Elapse 1900, Color 1 255 0 0] s1 = Inr s3 \<and>
      listeners s3 = listeners s1"
proof -
  let ?s1 = "\<lparr>buffer = [Some 128], writeLog = [0], transferred = [[Some 128]],
          listeners = [DeviceInfoListener 0], polling = True,
          promises = [Pending], timers = [], now = 0\<rparr>"
  let ?s2 = "\<lparr>buffer = [Some 128], writeLog = [0], transferred = [[Some 128]],
          listeners = [DeviceInfoListener 0], polling = False,
          promises = [Fulfilled [128, 7]], timers = [], now = 0\<rparr>"
  let ?s3 = "\<lparr>buffer = [Some 1, Some 1, Some 255, Some 0, Some 0], writeLog = [0, 1, 2, 3, 4],
          transferred = [[Some 128], [Some 1, Some 1, Some 255, Some 0, Some 0]],
          listeners = [DeviceInfoListener 0], polling = False,
          promises = [Fulfilled [128, 7]], timers = [], now = 1900\<rparr>"
  note A = match_stops_poll_keeps_listener [of API_sample new_session "[]"]
  note B = match_stops_poll_keeps_listener [of API_sample ?s1 "[]"]
  have 1: "listeners ?s1 = [DeviceInfoListener 0] \<and> polling ?s1 \<and> promises ?s1 ! 0 = Pending"
    by (rule A [THEN conjunct1, rule_format, OF sample_info])
  have h2: "emit_data API_sample [128, 7] ?s1 = Inr ?s2 \<and> promises ?s1 ! 0 = Pending \<and>
        promises ?s2 ! 0 \<noteq> Pending"
    using sample_info_match by simp
  have 2: "promises ?s2 ! 0 = Fulfilled [128, 7] \<and> \<not> polling ?s2 \<and> listeners ?s2 = listeners ?s1"
    by (rule B [THEN conjunct2, THEN conjunct2, THEN conjunct1, rule_format, OF h2])
  have h3: "run API_sample [Data [128, 7], Elapse 1900, Color 1 255 0 0] ?s1 = Inr ?s3 \<and>
        list_all (\<lambda>c. \<not> is_arm c) [Data [128, 7], Elapse 1900, Color 1 255 0 0]"
    using sample_info_later by simp
  have 3: "listeners ?s3 = listeners ?s1"
    by (rule B [THEN conjunct2, THEN conjunct2, THEN conjunct2, rule_format, OF h3])
  from 1 2 3 sample_info sample_info_match sample_info_later show ?thesis by blast
qed

text \<open>
  Claim C7, as stated, fails on both paths. After \<open>getDeviceInfo\<close> and a device-info
  buffer the wait is fulfilled, and its listener is still registered. After
  \<open>readFromDeviceUntil\<close> and 1900 ms with no buffer the wait has timed out, and its
  listener is still registered and the poll still active.
\<close>

theorem settled_wait_keeps_listener:
  "(\<exists>s. run API_sample [GetDeviceInfo, Data [128, 7]] new_session = Inr s \<and>
       promises s ! 0 = Fulfilled [128, 7] \<and> listeners s \<noteq> [])
   \<and> (\<exists>s. run API_sample [ReadFromDeviceUntil [1, 0], Elapse 1900] new_session = Inr s \<and>
       promises s ! 0 = Rejected WaitTimedOut \<and> listeners s \<noteq> [] \<and> polling s)"
proof -
  have 1: "run API_sample [GetDeviceInfo, Data [128, 7]] new_session =
     Inr \<lparr>buffer = [Some 128], writeLog = [0], transferred = [[Some 128]],
          listeners = [DeviceInfoListener 0], polling = False,
          promises = [Fulfilled [128, 7]], timers = [], now = 0\<rparr>"
    by code_simp
  have 2: "run API_sample [ReadFromDeviceUntil [1, 0], Elapse 1900] new_session =
     Inr \<lparr>buffer = [], writeLog = [], transferred = [],
          listeners = [UntilListener 0 [1, 0]], polling = True,
          promises = [Rejected WaitTimedOut], timers = [], now = 1900\<rparr>"
    by code_simp
  from 1 2 show ?thesis by simp
qed

text \<open>
  Claim C1, on the code: a wait armed by \<open>readFromDeviceUntil\<close> for the signature
  1, 0 is fulfilled by the buffer 7, 7, 7, whose first two bytes differ from it, and
  stays pending on the buffer 1, 0, 7, whose first two bytes are the signature.
\<close>

theorem readFromDeviceUntil_resolves_on_mismatch:
  "run API_sample [ReadFromDeviceUntil [1, 0], Data [7, 7, 7]] new_session =
     Inr \<lparr>buffer = [], writeLog = [], transferred = [],
          listeners = [UntilListener 0 [1, 0]], polling = False,
          promises = [Fulfilled [7, 7, 7]], timers = [(1900, 0)], now = 0\<rparr>
   \<and> run API_sample [ReadFromDeviceUntil [1, 0], Data [1, 0, 7]] new_session =
     Inr \<lparr>buffer = [], writeLog = [], transferred = [],
          listeners = [UntilListener 0 [1, 0]], polling = True,
          promises = [Pending], timers = [(1900, 0)], now = 0\<rparr>"
  by code_simp

lemma elapse_no_timers: "timers s = [] \<Longrightarrow> elapse ms s = s\<lparr>now := now s + ms\<rparr>"
  by (simp add: elapse_def Let_def)

lemma run_elapse_no_timers:
  "timers s = [] \<Longrightarrow>
   \<exists>s'. run API (map Elapse mss) s = Inr s' \<and> promises s' = promises s"
proof (induction mss arbitrary: s)
  case Nil
  then show ?case by (simp add: run_Nil)
next
  case (Cons ms mss)
  have "timers (s\<lparr>now := now s + ms\<rparr>) = []" using Cons.prems by simp
  from Cons.IH [OF this] show ?case
    by (simp add: run_Cons elapse_no_timers [OF Cons.prems])
qed

text \<open>
  Claim C2, on the code: \<open>getDeviceInfo\<close> arms no timer, and when the device sends
  nothing its wait is pending after any amount of time.
\<close>

theorem getDeviceInfo_never_times_out:
  "\<exists>s1. getDeviceInfo API_sample new_session = Inr (0, s1) \<and> timers s1 = [] \<and>
      (\<forall>mss. \<exists>s2. run API_sample (map Elapse mss) s1 = Inr s2 \<and> promises s2 ! 0 = Pending)"
proof -
  let ?s1 = "\<lparr>buffer = [Some 128], writeLog = [0], transferred = [[Some 128]],
          listeners = [DeviceInfoListener 0], polling = True,
          promises = [Pending], timers = [], now = 0\<rparr>"
  have t: "timers ?s1 = []" by simp
  have "\<forall>mss. \<exists>s2. run API_sample (map Elapse mss) ?s1 = Inr s2 \<and> promises s2 ! 0 = Pending"
  proof
    fix mss
    from run_elapse_no_timers [OF t, of API_sample mss]
    show "\<exists>s2. run API_sample (map Elapse mss) ?s1 = Inr s2 \<and> promises s2 ! 0 = Pending"
      by auto
  qed
  with sample_info t show ?thesis by blast
qed

lemma perform_settled:
  assumes "perform API c s = Inr s'" "q < length (promises s)" "promises s ! q \<noteq> Pending"
  shows "q < length (promises s') \<and> promises s' ! q = promises s ! q"
  using assms(1)
proof (cases rule: perform_cases)
  case unchanged
  with assms show ?thesis by (simp add: same_wait_def)
next
  case (info p)
  with assms show ?thesis by (simp add: getDeviceInfo_arm nth_append)
next
  case (until p type)
  with assms show ?thesis by (simp add: readFromDeviceUntil_arm nth_append)
next
  case (data b)
  with assms show ?thesis by (simp add: emit_data_frame emit_data_settled)
next
  case (elapse ms)
  with assms show ?thesis by (simp add: elapse_frame elapse_settled)
qed

lemma run_settled:
  assumes "run API cs s = Inr s'" "q < length (promises s)" "promises s ! q \<noteq> Pending"
  shows "promises s' ! q = promises s ! q"
proof -
  let ?P = "\<lambda>t. q < length (promises t) \<and> promises t ! q = promises s ! q"
  have "?P s'"
  proof (rule run_invariant [of ?P API, OF _ _ assms(1)])
    fix c t t' assume "?P t" "perform API c t = Inr t'"
    with perform_settled [of API c t t' q] assms(3) show "?P t'" by simp
  next
    from assms(2) show "?P s" by simp
  qed
  then show ?thesis by simp
qed

lemma perform_deadline:
  assumes step: "perform API c s = Inr s'"
    and inv: "q < length (promises s) \<and>
       (promises s ! q = Rejected WaitTimedOut \<or> (\<exists>b. promises s ! q = Fulfilled b) \<or>
        promises s ! q = Pending \<and> (d, q) \<in> set (timers s) \<and> now s < d)"
  shows "q < length (promises s') \<and>
       (promises s' ! q = Rejected WaitTimedOut \<or> (\<exists>b. promises s' ! q = Fulfilled b) \<or>
        promises s' ! q = Pending \<and> (d, q) \<in> set (timers s') \<and> now s' < d)"
  using step
proof (cases rule: perform_cases)
  case unchanged
  with inv show ?thesis by (simp add: same_wait_def)
next
  case (info p)
  with inv show ?thesis by (simp add: getDeviceInfo_arm nth_append)
next
  case (until p type)
  with inv show ?thesis by (auto simp: readFromDeviceUntil_arm nth_append)
next
  case (data b)
  from inv emit_data_frame [OF data] emit_data_result [OF data, of q]
    emit_data_settled [OF data, of q]
  show ?thesis by auto
next
  case (elapse ms)
  from inv have q: "q < length (promises s)" by simp
  show ?thesis
  proof (cases "promises s ! q = Pending")
    case False
    with inv q show ?thesis by (auto simp: elapse elapse_frame elapse_settled)
  next
    case True
    with inv have tm: "(d, q) \<in> set (timers s)" by auto
    show ?thesis
    proof (cases "d \<le> now s + ms")
      case le: True
      from elapse_due [OF tm le q] elapse_result [of ms s q] True
      show ?thesis by (simp add: elapse elapse_frame q)
    next
      case gt: False
      with tm have "(d, q) \<in> set (timers (elapse ms s))" by (simp add: elapse_frame)
      with gt elapse_result [of ms s q] True q
      show ?thesis by (auto simp: elapse elapse_frame)
    qed
  qed
qed

text \<open>
  Claim C6. A wait armed by \<open>readFromDeviceUntil\<close> settles exactly once: from the
  deadline on it is settled; it is fulfilled with a buffer or rejected as timed out;
  and once it is settled, nothing that happens later, the other path included,
  changes its outcome.
\<close>

theorem wait_settles_once:
  assumes arm: "readFromDeviceUntil type s = (p, s1)" and r: "run API cs s1 = Inr s2"
  shows "(now s1 + 1900 \<le> now s2 \<longrightarrow> promises s2 ! p \<noteq> Pending)
       \<and> (promises s2 ! p = Pending \<or> promises s2 ! p = Rejected WaitTimedOut \<or>
          (\<exists>b. promises s2 ! p = Fulfilled b))
       \<and> (\<forall>cs' s3. promises s2 ! p \<noteq> Pending \<and> run API cs' s2 = Inr s3 \<longrightarrow>
            promises s3 ! p = promises s2 ! p)"
proof -
  note g = readFromDeviceUntil_arm [OF arm]
  let ?d = "now s1 + 1900"
  let ?J = "\<lambda>t. p < length (promises t) \<and>
       (promises t ! p = Rejected WaitTimedOut \<or> (\<exists>b. promises t ! p = Fulfilled b) \<or>
        promises t ! p = Pending \<and> (?d, p) \<in> set (timers t) \<and> now t < ?d)"
  have J1: "?J s1" by (simp add: g)
  have J2: "?J s2"
    by (rule run_invariant [of ?J API, OF _ J1 r]) (rule perform_deadline)
  have a: "now s1 + 1900 \<le> now s2 \<longrightarrow> promises s2 ! p \<noteq> Pending"
    using J2 by auto
  have b: "promises s2 ! p = Pending \<or> promises s2 ! p = Rejected WaitTimedOut \<or>
          (\<exists>b. promises s2 ! p = Fulfilled b)"
    using J2 by auto
  have c: "\<forall>cs' s3. promises s2 ! p \<noteq> Pending \<and> run API cs' s2 = Inr s3 \<longrightarrow>
            promises s3 ! p = promises s2 ! p"
    using J2 run_settled [of API _ s2 _ p] by blast
  from a b c show ?thesis by blast
qed

lemma sample_until:
  "readFromDeviceUntil [1, 0] new_session =
     (0, \<lparr>buffer = [], writeLog = [], transferred = [],
          listeners = [UntilListener 0 [1, 0]], polling = True,
          promises = [Pending], timers = [(1900, 0)], now = 0\<rparr>)"
  by code_simp

lemma sample_until_data:
  "run API_sample [Data [7, 7]]
     \<lparr>buffer = [], writeLog = [], transferred = [],
          listeners = [UntilListener 0 [1, 0]], polling = True,
          promises = [Pending], timers = [(1900, 0)], now = 0\<rparr> =
   Inr \<lparr>buffer = [], writeLog = [], transferred = [],
          listeners = [UntilListener 0 [1, 0]], polling = False,
          promises = [Fulfilled [7, 7]], timers = [(1900, 0)], now = 0\<rparr>"
  by code_simp

lemma sample_until_data_elapse:
  "run API_sample [Elapse 1900]
     \<lparr>buffer = [], writeLog = [], transferred = [],
          listeners = [UntilListener 0 [1, 0]], polling = False,
          promises = [Fulfilled [7, 7]], timers = [(1900, 0)], now = 0\<rparr> =
   Inr \<lparr>buffer = [], writeLog = [], transferred = [],
          listeners = [UntilListener 0 [1, 0]], polling = False,
          promises = [Fulfilled [7, 7]], timers = [], now = 1900\<rparr>"
  by code_simp

lemma sample_until_elapse:
  "run API_sample [Elapse 1900]
     \<lparr>buffer = [], writeLog = [], transferred = [],
          listeners = [UntilListener 0 [1, 0]], polling = True,
          promises = [Pending], timers = [(1900, 0)], now = 0\<rparr> =
   Inr \<lparr>buffer = [], writeLog = [], transferred = [],
          listeners = [UntilListener 0 [1, 0]], polling = True,
          promises = [Rejected WaitTimedOut], timers = [], now = 1900\<rparr>"
  by code_simp

lemma sample_until_elapse_data:
  "run API_sample [Data [7, 7]]
     \<lparr>buffer = [], writeLog = [], transferred = [],
          listeners = [UntilListener 0 [1, 0]], polling = True,
          promises = [Rejected WaitTimedOut], timers = [], now = 1900\<rparr> =
   Inr \<lparr>buffer = [], writeLog = [], transferred = [],
          listeners = [UntilListener 0 [1, 0]], polling = False,
          promises = [Rejected WaitTimedOut], timers = [], now = 1900\<rparr>"
  by code_simp

text \<open>
  An instance of claim C6, in both orders: a buffer that settles the wait and then the
  timer, and the timer and then the buffer.
\<close>

theorem wait_settles_once_witness:
  "promises \<lparr>buffer = [], writeLog = [], transferred = [],
          listeners = [UntilListener 0 [1, 0]], polling = False,
          promises = [Fulfilled [7, 7]], timers = [], now = 1900\<rparr> ! 0 = Fulfilled [7, 7]
   \<and> promises \<lparr>buffer = [], writeLog = [], transferred = [],
          listeners = [UntilListener 0 [1, 0]], polling = True,
          promises = [Rejected WaitTimedOut], timers = [], now = 1900\<rparr> ! 0 \<noteq> Pending
   \<and> promises \<lparr>buffer = [], writeLog = [], transferred = [],
          listeners = [UntilListener 0 [1, 0]], polling = False,
          promises = [Rejected WaitTimedOut], timers = [], now = 1900\<rparr> ! 0 =
       Rejected WaitTimedOut"
proof -
  let ?s1 = "\<lparr>buffer = [], writeLog = [], transferred = [],
          listeners = [UntilListener 0 [1, 0]], polling = True,
          promises = [Pending], timers = [(1900, 0)], now = 0\<rparr>"
  let ?a = "\<lparr>buffer = [], writeLog = [], transferred = [],
          listeners = [UntilListener 0 [1, 0]], polling = False,
          promises = [Fulfilled [7, 7]], timers = [(1900, 0)], now = 0\<rparr>"
  let ?a' = "\<lparr>buffer = [], writeLog = [], transferred = [],
          listeners = [UntilListener 0 [1, 0]], polling = False,
          promises = [Fulfilled [7, 7]], timers = [], now = 1900\<rparr>"
  let ?b = "\<lparr>buffer = [], writeLog = [], transferred = [],
          listeners = [UntilListener 0 [1, 0]], polling = True,
          promises = [Rejected WaitTimedOut], timers = [], now = 1900\<rparr>"
  let ?b' = "\<lparr>buffer = [], writeLog = [], transferred = [],
          listeners = [UntilListener 0 [1, 0]], polling = False,
          promises = [Rejected WaitTimedOut], timers = [], now = 1900\<rparr>"
  note A = wait_settles_once [OF sample_until sample_until_data]
  note B = wait_settles_once [OF sample_until sample_until_elapse]
  have ha: "promises ?a ! 0 \<noteq> Pending \<and> run API_sample [Elapse 1900] ?a = Inr ?a'"
    using sample_until_data_elapse by simp
  have 1: "promises ?a' ! 0 = promises ?a ! 0"
    by (rule A [THEN conjunct2, THEN conjunct2, rule_format, OF ha])
  have "now ?s1 + 1900 \<le> now ?b" by simp
  with B [THEN conjunct1] have 2: "promises ?b ! 0 \<noteq> Pending" by blast
  then have hb: "promises ?b ! 0 \<noteq> Pending \<and> run API_sample [Data [7, 7]] ?b = Inr ?b'"
    using sample_until_elapse_data by simp
  have 3: "promises ?b' ! 0 = promises ?b ! 0"
    by (rule B [THEN conjunct2, THEN conjunct2, rule_format, OF hb])
  from 1 2 3 show ?thesis by simp
qed

end
